theory Spec2Isabelle
  imports Complex_Main
begin

section \<open>The negotiation hub: data model\<close>

text \<open>
  The hub is the WebSocket server (server/server.ts) together with the negotiation
  rules (negotiation/rules.ts). Its module-level variables (\<open>clients\<close>,
  \<open>activeOffers\<close>, \<open>activeInvoices\<close>, \<open>transactions\<close>) become the fields of one
  state record that every handler takes and returns. A JavaScript \<open>Map\<close> is an
  association list in insertion order: \<open>Map_set\<close> overwrites the value of a present key
  in place and appends a new key, \<open>Map_delete\<close> removes the key.

  Strings are lists of 8-bit characters, a price is a real number (the code only
  compares it with 0 and copies it; the values NaN and Infinity of a JavaScript number
  are left out), times are integer milliseconds. Frames are taken to have the fields
  and field types that the declarations in protocol/messages.ts give them. A WebSocket object
  is identified by a natural number. \<open>console.log\<close> output is not modelled. The field
  \<open>sent\<close> records every call \<open>ws.send(frame)\<close> in order.
\<close>

type_synonym WebSocket = nat

datatype ready_state = CONNECTING | OPEN | CLOSING | CLOSED

datatype connection_type = agent | spectator

record OfferMsg =
  o_id :: string
  o_price :: real
  o_skill :: string
  o_from :: string

record AcceptMsg =
  a_id :: string
  a_from :: string

record PayMsg =
  p_id :: string
  p_tx :: string
  p_from :: string

record ChatMsg =
  c_text :: string
  c_from :: string

record InvoiceMsg =
  i_id :: string
  i_buyer :: string
  i_seller :: string
  i_price :: real
  i_skill :: string
  i_from :: string

datatype AnyMsg =
    OFFER OfferMsg
  | ACCEPT AcceptMsg
  | PAY PayMsg
  | CHAT ChatMsg
  | INVOICE InvoiceMsg

text \<open>The tag \<open>t\<close> of a frame.\<close>

fun msg_t :: "AnyMsg \<Rightarrow> string" where
  "msg_t (OFFER _) = ''OFFER''"
| "msg_t (ACCEPT _) = ''ACCEPT''"
| "msg_t (PAY _) = ''PAY''"
| "msg_t (CHAT _) = ''CHAT''"
| "msg_t (INVOICE _) = ''INVOICE''"

text \<open>
  What arrives on a socket: data that \<open>JSON.parse\<close> rejects, an object whose tag is
  none of the five known ones, or a frame of type \<open>AnyMsg\<close>.
\<close>

datatype RawData = Unparsable | UnknownKind | Frame AnyMsg

text \<open>The argument of \<open>broadcast\<close> is \<open>AnyMsg | string\<close>.\<close>

datatype payload = Str string | Msg AnyMsg

record Invoice =
  inv_id :: string
  buyer :: string
  seller :: string
  price :: real
  skill :: string
  timestamp :: int

datatype tx_status = completed | pending | failed

record Transaction =
  tx_id :: string
  tx_timestamp :: int
  tx_from :: string
  tx_to :: string
  amount :: real
  txHash :: string
  status :: tx_status

record client =
  client_id :: string
  isAlive :: bool
  address :: "string option"
  name :: "string option"
  client_type :: "string option"
  connectionType :: connection_type

record hub =
  clients :: "(WebSocket \<times> client) list"
  activeOffers :: "(string \<times> OfferMsg) list"
  activeInvoices :: "(string \<times> Invoice) list"
  transactions :: "Transaction list"
  readyState :: "WebSocket \<Rightarrow> ready_state"
  sent :: "(WebSocket \<times> payload) list"

text \<open>
  Two operations of the JavaScript runtime that the handlers use only to build the text
  of chat lines are parameters of the model: the conversion of a number to a string in a
  template literal, and \<open>String.prototype.replace\<close> with a string pattern.
\<close>

record jsrt =
  numToString :: "real \<Rightarrow> string"
  strReplace :: "string \<Rightarrow> string \<Rightarrow> string \<Rightarrow> string"

subsection \<open>JavaScript maps and truthiness\<close>

definition Map_get :: "('k \<times> 'v) list \<Rightarrow> 'k \<Rightarrow> 'v option" where
  "Map_get m k = map_of m k"

primrec Map_set :: "'k \<Rightarrow> 'v \<Rightarrow> ('k \<times> 'v) list \<Rightarrow> ('k \<times> 'v) list" where
  "Map_set k v [] = [(k, v)]"
| "Map_set k v (e # es) = (if fst e = k then (k, v) # es else e # Map_set k v es)"

definition Map_delete :: "'k \<Rightarrow> ('k \<times> 'v) list \<Rightarrow> ('k \<times> 'v) list" where
  "Map_delete k m = filter (\<lambda>e. fst e \<noteq> k) m"

text \<open>
  An optional string is truthy when it is defined and not empty: \<open>!client.address\<close>
  holds for \<open>undefined\<close> and for the empty string alike.
\<close>

fun truthy :: "string option \<Rightarrow> bool" where
  "truthy None = False"
| "truthy (Some s) = (s \<noteq> [])"

text \<open>\<open>a || b\<close> on an optional string and a string.\<close>

definition or_else :: "string option \<Rightarrow> string \<Rightarrow> string" where
  "or_else a b = (case a of Some s \<Rightarrow> if s \<noteq> [] then s else b | None \<Rightarrow> b)"

section \<open>negotiation/rules.ts\<close>

definition validateOffer :: "OfferMsg \<Rightarrow> bool" where
  "validateOffer offer =
     (if o_id offer = [] \<or> o_skill offer = [] \<or> o_price offer \<le> 0 \<or> o_from offer = []
      then False else True)"

definition validateAccept :: "AcceptMsg \<Rightarrow> OfferMsg option \<Rightarrow> bool" where
  "validateAccept accept offer =
     (case offer of
        None \<Rightarrow> False
      | Some off \<Rightarrow> if a_from accept = o_from off then False else True)"

definition createInvoice :: "OfferMsg \<Rightarrow> string \<Rightarrow> int \<Rightarrow> hub \<Rightarrow> Invoice \<times> hub" where
  "createInvoice offer acceptedBy now s =
     (let invoice = \<lparr> inv_id = o_id offer, buyer = o_from offer, seller = acceptedBy,
                      price = o_price offer, skill = o_skill offer, timestamp = now \<rparr>
      in (invoice, s\<lparr> activeInvoices := Map_set (o_id offer) invoice (activeInvoices s) \<rparr>))"

definition validatePayment :: "PayMsg \<Rightarrow> Invoice option \<Rightarrow> bool" where
  "validatePayment pay invoice =
     (case invoice of
        None \<Rightarrow> False
      | Some iv \<Rightarrow>
          if p_from pay \<noteq> buyer iv then False
          else if p_tx pay = [] then False
          else True)"

definition completeInvoice :: "string \<Rightarrow> hub \<Rightarrow> Invoice option \<times> hub" where
  "completeInvoice invoiceId s =
     (let invoice = Map_get (activeInvoices s) invoiceId
      in case invoice of
           Some _ \<Rightarrow> (invoice, s\<lparr> activeInvoices := Map_delete invoiceId (activeInvoices s) \<rparr>)
         | None \<Rightarrow> (invoice, s))"

definition getInvoice :: "string \<Rightarrow> hub \<Rightarrow> Invoice option" where
  "getInvoice i s = Map_get (activeInvoices s) i"

definition expiryTime :: int where
  "expiryTime = 10 * 60 * 1000"

text \<open>
  The sweep walks the entries of the map and deletes the expired ones from the map it
  walks; a JavaScript map iterator still visits every remaining entry after a deletion.
\<close>

fun cleanup_loop :: "int \<Rightarrow> (string \<times> Invoice) list \<Rightarrow> (string \<times> Invoice) list
    \<Rightarrow> (string \<times> Invoice) list" where
  "cleanup_loop now [] m = m"
| "cleanup_loop now ((i, invoice) # es) m =
     cleanup_loop now es
       (if now - timestamp invoice > expiryTime then Map_delete i m else m)"

definition cleanupExpiredInvoices :: "int \<Rightarrow> hub \<Rightarrow> hub" where
  "cleanupExpiredInvoices now s =
     s\<lparr> activeInvoices := cleanup_loop now (activeInvoices s) (activeInvoices s) \<rparr>"

section \<open>server/server.ts\<close>

subsection \<open>Friendly names\<close>

definition agentTypes :: "string list" where
  "agentTypes = [''Developer'', ''Designer'', ''Marketer'', ''Writer'', ''Analyst'',
                 ''Consultant'', ''Strategist'', ''Researcher'', ''Engineer'', ''Artist'']"

definition adjectives :: "string list" where
  "adjectives = [''Swift'', ''Clever'', ''Bright'', ''Expert'', ''Skilled'',
                 ''Creative'', ''Talented'', ''Brilliant'', ''Resourceful'', ''Innovative'']"

definition generateAgentName :: "string \<Rightarrow> string" where
  "generateAgentName addr =
     (let hashValue = foldl (\<lambda>acc ch. acc + (of_char ch :: nat)) 0 addr;
          adjIndex = hashValue mod length adjectives;
          typeIndex = (hashValue * 13) mod length agentTypes
      in adjectives ! adjIndex @ '' '' @ agentTypes ! typeIndex)"

subsection \<open>Fan-out\<close>

definition ws_send :: "WebSocket \<Rightarrow> payload \<Rightarrow> hub \<Rightarrow> hub" where
  "ws_send ws frame s = s\<lparr> sent := sent s @ [(ws, frame)] \<rparr>"

definition spectator_kind :: "payload \<Rightarrow> bool" where
  "spectator_kind message =
     (case message of
        Str _ \<Rightarrow> False
      | Msg m \<Rightarrow> msg_t m = ''CHAT'' \<or> msg_t m = ''OFFER'' \<or> msg_t m = ''ACCEPT'' \<or> msg_t m = ''PAY'')"

fun broadcast_loop :: "payload \<Rightarrow> WebSocket option \<Rightarrow> (WebSocket \<times> client) list \<Rightarrow> hub \<Rightarrow> hub" where
  "broadcast_loop message sender [] s = s"
| "broadcast_loop message sender ((ws, cl) # rest) s =
     broadcast_loop message sender rest
       (if Some ws \<noteq> sender \<and> readyState s ws = OPEN then
          (if connectionType cl = spectator then
             (if spectator_kind message then ws_send ws message s else s)
           else ws_send ws message s)
        else s)"

definition broadcast :: "payload \<Rightarrow> WebSocket option \<Rightarrow> hub \<Rightarrow> hub" where
  "broadcast message sender s = broadcast_loop message sender (clients s) s"

text \<open>
  \<open>sendToAddress\<close> returns at the first open connection bound to the address that is an
  agent; an open spectator bound to the address is passed over.
\<close>

fun sendToAddress_loop :: "string \<Rightarrow> AnyMsg \<Rightarrow> (WebSocket \<times> client) list \<Rightarrow> hub \<Rightarrow> bool \<times> hub" where
  "sendToAddress_loop addr message [] s = (False, s)"
| "sendToAddress_loop addr message ((ws, cl) # rest) s =
     (if address cl = Some addr \<and> readyState s ws = OPEN then
        (if connectionType cl = agent then (True, ws_send ws (Msg message) s)
         else sendToAddress_loop addr message rest s)
      else sendToAddress_loop addr message rest s)"

definition sendToAddress :: "string \<Rightarrow> AnyMsg \<Rightarrow> hub \<Rightarrow> bool \<times> hub" where
  "sendToAddress addr message s = sendToAddress_loop addr message (clients s) s"

fun broadcastToAgents_loop :: "payload \<Rightarrow> WebSocket option \<Rightarrow> (WebSocket \<times> client) list \<Rightarrow> hub \<Rightarrow> hub" where
  "broadcastToAgents_loop message sender [] s = s"
| "broadcastToAgents_loop message sender ((ws, cl) # rest) s =
     broadcastToAgents_loop message sender rest
       (if Some ws \<noteq> sender \<and> readyState s ws = OPEN \<and> connectionType cl = agent
        then ws_send ws message s else s)"

definition broadcastToAgents :: "payload \<Rightarrow> WebSocket option \<Rightarrow> hub \<Rightarrow> hub" where
  "broadcastToAgents message sender s = broadcastToAgents_loop message sender (clients s) s"

subsection \<open>Handlers\<close>

text \<open>
  \<open>client.address = a\<close> guarded by \<open>client && !client.address\<close>: the client object of
  the socket is updated in place when its address is undefined or empty.
\<close>

definition bind_address :: "WebSocket \<Rightarrow> string \<Rightarrow> hub \<Rightarrow> hub" where
  "bind_address ws a s =
     (case Map_get (clients s) ws of
        Some cl \<Rightarrow>
          if \<not> truthy (address cl)
          then s\<lparr> clients := Map_set ws (cl\<lparr> address := Some a \<rparr>) (clients s) \<rparr>
          else s
      | None \<Rightarrow> s)"

text \<open>\<open>client?.name || generateAgentName(a)\<close>\<close>

definition name_or_generated :: "client option \<Rightarrow> string \<Rightarrow> string" where
  "name_or_generated cl a =
     (case cl of
        Some c \<Rightarrow> or_else (name c) (generateAgentName a)
      | None \<Rightarrow> generateAgentName a)"

definition handleOffer :: "jsrt \<Rightarrow> OfferMsg \<Rightarrow> WebSocket \<Rightarrow> hub \<Rightarrow> hub" where
  "handleOffer rt offer ws s =
     (if \<not> validateOffer offer then s
      else
        let s1 = bind_address ws (o_from offer) s;
            agentName = name_or_generated (Map_get (clients s1) ws) (o_from offer);
            s2 = s1\<lparr> activeOffers := Map_set (o_id offer) offer (activeOffers s1) \<rparr>;
            s3 = broadcastToAgents (Msg (OFFER offer)) (Some ws) s2;
            spectatorMsg = \<lparr> c_text = agentName @ '' offered '' @ numToString rt (o_price offer)
                                       @ '' for skill: '' @ o_skill offer,
                             c_from = ''system'' \<rparr>
        in broadcast (Msg (CHAT spectatorMsg)) (Some ws) s3)"

text \<open>The name of the first client bound to the offer's creator, if there is one.\<close>

fun offerorName_loop :: "string \<Rightarrow> (WebSocket \<times> client) list \<Rightarrow> string \<Rightarrow> string" where
  "offerorName_loop a [] d = d"
| "offerorName_loop a ((ws, storedClient) # rest) d =
     (if address storedClient = Some a then or_else (name storedClient) (generateAgentName a)
      else offerorName_loop a rest d)"

definition handleAccept :: "jsrt \<Rightarrow> AcceptMsg \<Rightarrow> WebSocket \<Rightarrow> int \<Rightarrow> hub \<Rightarrow> hub" where
  "handleAccept rt accept ws now s =
     (let offer = Map_get (activeOffers s) (a_id accept)
      in if \<not> validateAccept accept offer then s
         else
           let s1 = bind_address ws (a_from accept) s;
               acceptorName = name_or_generated (Map_get (clients s1) ws) (a_from accept)
           in case offer of
                None \<Rightarrow> s1
              | Some off \<Rightarrow>
                  let offerorName = offerorName_loop (o_from off) (clients s1)
                                      (take 6 (o_from off) @ ''...'')
                  in if a_from accept = o_from off then s1
                     else
                       let (invoice, s2) = createInvoice off (a_from accept) now s1;
                           s3 = broadcastToAgents (Msg (ACCEPT accept)) (Some ws) s2;
                           spectatorMsg = \<lparr> c_text = acceptorName @ '' accepted offer ''
                                             @ a_id accept @ '' from '' @ offerorName,
                                            c_from = ''system'' \<rparr>;
                           s4 = broadcast (Msg (CHAT spectatorMsg)) (Some ws) s3;
                           invoiceMsg = \<lparr> i_id = inv_id invoice, i_buyer = buyer invoice,
                                          i_seller = seller invoice, i_price = price invoice,
                                          i_skill = skill invoice, i_from = ''system'' \<rparr>;
                           s5 = snd (sendToAddress (buyer invoice) (INVOICE invoiceMsg) s4)
                       in snd (sendToAddress (seller invoice) (INVOICE invoiceMsg) s5))"

text \<open>
  In \<open>handlePayment\<close> the binding also fills in a generated name when the client has
  none.
\<close>

definition bind_address_named :: "WebSocket \<Rightarrow> string \<Rightarrow> hub \<Rightarrow> hub" where
  "bind_address_named ws a s =
     (case Map_get (clients s) ws of
        Some cl \<Rightarrow>
          if \<not> truthy (address cl)
          then s\<lparr> clients := Map_set ws
                  (cl\<lparr> address := Some a,
                       name := (if \<not> truthy (name cl) then Some (generateAgentName a) else name cl) \<rparr>)
                  (clients s) \<rparr>
          else s
      | None \<Rightarrow> s)"

definition handlePayment :: "jsrt \<Rightarrow> PayMsg \<Rightarrow> WebSocket \<Rightarrow> int \<Rightarrow> hub \<Rightarrow> hub" where
  "handlePayment rt pay ws now s =
     (let invoice = getInvoice (p_id pay) s
      in if \<not> validatePayment pay invoice then s
         else
           let s1 = bind_address_named ws (p_from pay) s;
               payerName = name_or_generated (Map_get (clients s1) ws) (p_from pay)
           in case invoice of
                None \<Rightarrow> s1
              | Some iv \<Rightarrow>
                  let s2 = snd (completeInvoice (p_id pay) s1);
                      s3 = s2\<lparr> activeOffers := Map_delete (p_id pay) (activeOffers s2) \<rparr>;
                      transaction = \<lparr> tx_id = p_id pay, tx_timestamp = now, tx_from = buyer iv,
                                      tx_to = seller iv, amount = price iv, txHash = p_tx pay,
                                      status = completed \<rparr>;
                      s4 = s3\<lparr> transactions := transactions s3 @ [transaction] \<rparr>;
                      s5 = broadcastToAgents (Msg (PAY pay)) (Some ws) s4;
                      spectatorMsg = \<lparr> c_text = payerName @ '' completed payment for '' @ p_id pay
                                        @ '' (tx: '' @ take 8 (p_tx pay) @ ''...)'',
                                       c_from = ''system'' \<rparr>
                  in broadcast (Msg (CHAT spectatorMsg)) (Some ws) s5)"

text \<open>
  \<open>handleChat\<close> looks for the first client bound to the sender's address and gives it
  a generated name when it has none.
\<close>

fun displayName_loop :: "string \<Rightarrow> (WebSocket \<times> client) list \<Rightarrow> (WebSocket \<times> client) list" where
  "displayName_loop a [] = []"
| "displayName_loop a ((ws, storedClient) # rest) =
     (if address storedClient = Some a then
        (if truthy (name storedClient) then (ws, storedClient) # rest
         else (ws, storedClient\<lparr> name := Some (generateAgentName a) \<rparr>) # rest)
      else (ws, storedClient) # displayName_loop a rest)"

text \<open>The matches of \<open>/0x[a-fA-F0-9]{40}/g\<close>, from left to right, not overlapping.\<close>

definition isHex :: "char \<Rightarrow> bool" where
  "isHex ch = (let n = (of_char ch :: nat) in
     (48 \<le> n \<and> n \<le> 57) \<or> (65 \<le> n \<and> n \<le> 70) \<or> (97 \<le> n \<and> n \<le> 102))"

definition addressAt :: "string \<Rightarrow> bool" where
  "addressAt str = (42 \<le> length str \<and> take 2 str = ''0x'' \<and> list_all isHex (take 40 (drop 2 str)))"

function matchAddresses :: "string \<Rightarrow> string list" where
  "matchAddresses [] = []"
| "matchAddresses (ch # rest) =
     (if addressAt (ch # rest) then take 42 (ch # rest) # matchAddresses (drop 41 rest)
      else matchAddresses rest)"
  by pat_completeness auto
termination
  by (relation "measure length") auto

fun replace_loop :: "jsrt \<Rightarrow> string \<Rightarrow> (WebSocket \<times> client) list \<Rightarrow> string \<Rightarrow> string" where
  "replace_loop rt a [] modifiedText = modifiedText"
| "replace_loop rt a ((ws, storedClient) # rest) modifiedText =
     (if address storedClient = Some a \<and> truthy (name storedClient)
      then strReplace rt modifiedText a (or_else (name storedClient) [])
      else replace_loop rt a rest modifiedText)"

definition handleChat :: "jsrt \<Rightarrow> ChatMsg \<Rightarrow> WebSocket \<Rightarrow> hub \<Rightarrow> hub" where
  "handleChat rt chat ws s =
     (let s1 = (if c_from chat \<noteq> ''system'' then bind_address ws (c_from chat) s else s);
          s2 = (if c_from chat \<noteq> ''system''
                then s1\<lparr> clients := displayName_loop (c_from chat) (clients s1) \<rparr> else s1);
          broadcastMessage =
            (if c_from chat = ''system'' then
               (case matchAddresses (c_text chat) of
                  [] \<Rightarrow> chat
                | a # as \<Rightarrow>
                    chat\<lparr> c_text := foldl (\<lambda>modifiedText x. replace_loop rt x (clients s2) modifiedText)
                                       (c_text chat) (a # as) \<rparr>)
             else chat)
      in broadcast (Msg (CHAT broadcastMessage)) (Some ws) s2)"

definition handleMessage :: "jsrt \<Rightarrow> AnyMsg \<Rightarrow> WebSocket \<Rightarrow> int \<Rightarrow> hub \<Rightarrow> hub" where
  "handleMessage rt message ws now s =
     (case message of
        OFFER offer \<Rightarrow> handleOffer rt offer ws s
      | ACCEPT accept \<Rightarrow> handleAccept rt accept ws now s
      | PAY pay \<Rightarrow> handlePayment rt pay ws now s
      | CHAT chat \<Rightarrow> handleChat rt chat ws s
      | INVOICE _ \<Rightarrow> s)"

subsection \<open>Connections\<close>

text \<open>
  The introduction pattern \<open>/I'm\s+([A-Za-z0-9]+)/i\<close>: the first place where the text
  reads I'm (in either case), then white space, then letters or digits, which are the
  captured name.
\<close>

definition isSpace :: "char \<Rightarrow> bool" where
  "isSpace ch = (let n = (of_char ch :: nat) in (9 \<le> n \<and> n \<le> 13) \<or> n = 32 \<or> n = 160)"

definition isAlnum :: "char \<Rightarrow> bool" where
  "isAlnum ch = (let n = (of_char ch :: nat) in
     (48 \<le> n \<and> n \<le> 57) \<or> (65 \<le> n \<and> n \<le> 90) \<or> (97 \<le> n \<and> n \<le> 122))"

definition introAt :: "string \<Rightarrow> string option" where
  "introAt str =
     (case str of
        a # b # c # rest \<Rightarrow>
          if (a = CHR ''I'' \<or> a = CHR ''i'') \<and> b = CHR 0x27 \<and> (c = CHR ''m'' \<or> c = CHR ''M'')
             \<and> takeWhile isSpace rest \<noteq> [] \<and> takeWhile isAlnum (dropWhile isSpace rest) \<noteq> []
          then Some (takeWhile isAlnum (dropWhile isSpace rest))
          else None
      | _ \<Rightarrow> None)"

fun introMatch :: "string \<Rightarrow> string option" where
  "introMatch [] = None"
| "introMatch (ch # rest) =
     (case introAt (ch # rest) of Some n \<Rightarrow> Some n | None \<Rightarrow> introMatch rest)"

definition spectatorWarning :: ChatMsg where
  "spectatorWarning =
     \<lparr> c_text = ''As a spectator, you can only send chat messages.'', c_from = ''system'' \<rparr>"

definition is_spectator :: "client option \<Rightarrow> bool" where
  "is_spectator cl = (case cl of Some c \<Rightarrow> connectionType c = spectator | None \<Rightarrow> False)"

text \<open>The tag of what arrived, when it has one of the five known tags.\<close>

definition raw_t :: "RawData \<Rightarrow> string option" where
  "raw_t d = (case d of Frame m \<Rightarrow> Some (msg_t m) | _ \<Rightarrow> None)"

text \<open>
  The part of the message listener that runs on a CHAT frame before dispatch: bind the
  address, and take the name of an introduction when the client has no name yet.
\<close>

definition introduce :: "WebSocket \<Rightarrow> ChatMsg \<Rightarrow> hub \<Rightarrow> hub" where
  "introduce ws chat s =
     (case Map_get (clients s) ws of
        None \<Rightarrow> s
      | Some cl \<Rightarrow>
          if c_from chat \<noteq> ''system'' then
            let cl1 = (if \<not> truthy (address cl) then cl\<lparr> address := Some (c_from chat) \<rparr> else cl);
                cl2 = (case introMatch (c_text chat) of
                         Some n \<Rightarrow> if \<not> truthy (name cl1) then cl1\<lparr> name := Some n \<rparr> else cl1
                       | None \<Rightarrow> cl1)
            in s\<lparr> clients := Map_set ws cl2 (clients s) \<rparr>
          else s)"

text \<open>The listener \<open>ws.on('message', ...)\<close> of the socket \<open>ws\<close>.\<close>

definition onMessage :: "jsrt \<Rightarrow> WebSocket \<Rightarrow> RawData \<Rightarrow> int \<Rightarrow> hub \<Rightarrow> hub" where
  "onMessage rt ws d now s =
     (case d of
        Unparsable \<Rightarrow> s
      | _ \<Rightarrow>
          if is_spectator (Map_get (clients s) ws) \<and> raw_t d \<noteq> Some ''CHAT''
          then ws_send ws (Msg (CHAT spectatorWarning)) s
          else
            (case d of
               Frame (CHAT chat) \<Rightarrow> handleMessage rt (CHAT chat) ws now (introduce ws chat s)
             | Frame message \<Rightarrow> handleMessage rt message ws now s
             | _ \<Rightarrow> s))"

definition onPong :: "WebSocket \<Rightarrow> hub \<Rightarrow> hub" where
  "onPong ws s =
     (case Map_get (clients s) ws of
        Some cl \<Rightarrow> s\<lparr> clients := Map_set ws (cl\<lparr> isAlive := True \<rparr>) (clients s) \<rparr>
      | None \<Rightarrow> s)"

text \<open>The listeners for \<open>close\<close> and \<open>error\<close> both remove the client.\<close>

definition onClose :: "WebSocket \<Rightarrow> hub \<Rightarrow> hub" where
  "onClose ws s = s\<lparr> clients := Map_delete ws (clients s) \<rparr>"

definition onError :: "WebSocket \<Rightarrow> hub \<Rightarrow> hub" where
  "onError ws s = s\<lparr> clients := Map_delete ws (clients s) \<rparr>"

definition onConnection :: "WebSocket \<Rightarrow> string \<Rightarrow> string option \<Rightarrow> string option \<Rightarrow> hub \<Rightarrow> hub" where
  "onConnection ws ident query_type query_name s =
     (let connType = (if query_type = Some ''spectator'' then spectator else agent);
          providedName = (if truthy query_name then query_name else None);
          s1 = s\<lparr> clients := Map_set ws
                  \<lparr> client_id = ident, isAlive = True, address = None, name = providedName,
                    client_type = None, connectionType = connType \<rparr> (clients s) \<rparr>
      in if connType = spectator
         then ws_send ws (Msg (CHAT \<lparr> c_text =
                ''Welcome to the Radius Negotiation Hub! You are connected as a spectator.'',
                c_from = ''system'' \<rparr>)) s1
         else ws_send ws (Msg (CHAT \<lparr> c_text =
                ''Welcome to the Radius Negotiation Hub! You are agent '' @ ident @ ''.'',
                c_from = ''system'' \<rparr>)) s1)"

text \<open>The heartbeat drops the clients that did not answer the last ping.\<close>

fun heartbeat_loop :: "(WebSocket \<times> client) list \<Rightarrow> (WebSocket \<times> client) list" where
  "heartbeat_loop [] = []"
| "heartbeat_loop ((ws, cl) # rest) =
     (if \<not> isAlive cl then heartbeat_loop rest
      else (ws, cl\<lparr> isAlive := False \<rparr>) # heartbeat_loop rest)"

definition heartbeat :: "hub \<Rightarrow> hub" where
  "heartbeat s = s\<lparr> clients := heartbeat_loop (clients s) \<rparr>"

subsection \<open>The reset endpoint\<close>

definition resetMsg :: ChatMsg where
  "resetMsg = \<lparr> c_text =
      ''Negotiation state has been reset. All previous transactions and offers cleared.'',
      c_from = ''system'' \<rparr>"

fun reset_loop :: "(WebSocket \<times> client) list \<Rightarrow> hub \<Rightarrow> hub" where
  "reset_loop [] s = s"
| "reset_loop ((ws, cl) # rest) s =
     reset_loop rest (if readyState s ws = OPEN then ws_send ws (Msg (CHAT resetMsg)) s else s)"

definition api_reset :: "hub \<Rightarrow> hub" where
  "api_reset s =
     (let s1 = s\<lparr> transactions := [] \<rparr>;
          s2 = s1\<lparr> activeOffers := [] \<rparr>
      in reset_loop (clients s2) s2)"

section \<open>Runs of the hub\<close>

text \<open>
  The event loop handles one event at a time. The state of a socket changes outside the
  hub's code; the event \<open>SocketState\<close> stands for that.
\<close>

datatype event =
    Connection WebSocket string "string option" "string option"
  | Message WebSocket RawData int
  | Pong WebSocket
  | Close WebSocket
  | Error WebSocket
  | Heartbeat
  | Cleanup int
  | Reset
  | SocketState WebSocket ready_state

fun step :: "jsrt \<Rightarrow> hub \<Rightarrow> event \<Rightarrow> hub" where
  "step rt s (Connection ws ident qt qn) = onConnection ws ident qt qn s"
| "step rt s (Message ws d now) = onMessage rt ws d now s"
| "step rt s (Pong ws) = onPong ws s"
| "step rt s (Close ws) = onClose ws s"
| "step rt s (Error ws) = onError ws s"
| "step rt s Heartbeat = heartbeat s"
| "step rt s (Cleanup now) = cleanupExpiredInvoices now s"
| "step rt s Reset = api_reset s"
| "step rt s (SocketState ws st) = s\<lparr> readyState := (readyState s)(ws := st) \<rparr>"

definition initial :: hub where
  "initial = \<lparr> clients = [], activeOffers = [], activeInvoices = [], transactions = [],
               readyState = (\<lambda>_. CONNECTING), sent = [] \<rparr>"

definition run :: "jsrt \<Rightarrow> event list \<Rightarrow> hub" where
  "run rt evs = foldl (step rt) initial evs"

section \<open>State predicates and projections\<close>

text \<open>
  The role of each registered socket, in the order of the client table.
\<close>

definition roles :: "(WebSocket \<times> client) list \<Rightarrow> (WebSocket \<times> connection_type) list" where
  "roles cs = map (\<lambda>e. (fst e, connectionType (snd e))) cs"

text \<open>
  What a JavaScript \<open>Map\<close> guarantees of the three tables (one entry for each key), and
  what the ledger keeps of the invoices.
\<close>

definition hub_inv :: "hub \<Rightarrow> bool" where
  "hub_inv s =
     (distinct (map fst (clients s)) \<and> distinct (map fst (activeOffers s))
      \<and> distinct (map fst (activeInvoices s))
      \<and> list_all (\<lambda>e. buyer (snd e) \<noteq> seller (snd e)) (activeInvoices s))"

text \<open>
  The events that can change what is stored under the offer id \<open>k\<close>: an OFFER or a PAY
  frame that carries this id, and a reset.
\<close>

fun touches_offer :: "string \<Rightarrow> event \<Rightarrow> bool" where
  "touches_offer k (Message ws (Frame (OFFER offer)) now) = (o_id offer = k)"
| "touches_offer k (Message ws (Frame (PAY pay)) now) = (p_id pay = k)"
| "touches_offer k Reset = True"
| "touches_offer k _ = False"

text \<open>The address a socket is bound to, when the socket is registered.\<close>

definition addr_of :: "hub \<Rightarrow> WebSocket \<Rightarrow> string option option" where
  "addr_of s w = map_option address (Map_get (clients s) w)"

text \<open>
  The address that a frame binds to its sender's connection, for a sender of the given
  role whose address is still undefined or empty, in state \<open>s\<close>: the \<open>from\<close> of a CHAT
  that is not from \<open>system\<close>, and for an agent the \<open>from\<close> of an OFFER, ACCEPT or PAY that
  passes its validation.
\<close>

fun binding_of :: "hub \<Rightarrow> connection_type \<Rightarrow> RawData \<Rightarrow> string option" where
  "binding_of s r (Frame (CHAT chat)) =
     (if c_from chat \<noteq> ''system'' then Some (c_from chat) else None)"
| "binding_of s r (Frame (OFFER offer)) =
     (if r = agent \<and> validateOffer offer then Some (o_from offer) else None)"
| "binding_of s r (Frame (ACCEPT accept)) =
     (if r = agent \<and> validateAccept accept (Map_get (activeOffers s) (a_id accept))
      then Some (a_from accept) else None)"
| "binding_of s r (Frame (PAY pay)) =
     (if r = agent \<and> validatePayment pay (Map_get (activeInvoices s) (p_id pay))
      then Some (p_from pay) else None)"
| "binding_of s r _ = None"

text \<open>
  The effect on the address \<open>x\<close> of the socket \<open>w\<close> of binding \<open>a\<close> to the socket \<open>ws\<close>.
\<close>

definition bindf :: "WebSocket \<Rightarrow> string \<Rightarrow> WebSocket \<Rightarrow> string option \<Rightarrow> string option" where
  "bindf ws a w x = (if w = ws \<and> \<not> truthy x then Some a else x)"

text \<open>The frames that a step added to the log of sent frames.\<close>

definition new_frames :: "hub \<Rightarrow> hub \<Rightarrow> (WebSocket \<times> payload) list" where
  "new_frames s s' = drop (length (sent s)) (sent s')"

definition is_invoice :: "payload \<Rightarrow> bool" where
  "is_invoice f = (case f of Msg (INVOICE _) \<Rightarrow> True | _ \<Rightarrow> False)"

text \<open>
  Frames that are fit for the roles \<open>R\<close>: each is of a kind a spectator may see, or goes to
  a socket registered as an agent.
\<close>

definition frames_ok :: "(WebSocket \<times> connection_type) list \<Rightarrow> (WebSocket \<times> payload) list \<Rightarrow> bool" where
  "frames_ok R xs = list_all (\<lambda>e. spectator_kind (snd e) \<or> (fst e, agent) \<in> set R) xs"

text \<open>
  A handler that takes \<open>s\<close> to \<open>s'\<close> keeps the roles and only adds frames that are fit
  for them.
\<close>

definition emits :: "hub \<Rightarrow> hub \<Rightarrow> bool" where
  "emits s s' = (roles (clients s') = roles (clients s)
     \<and> sent s' = sent s @ new_frames s s'
     \<and> frames_ok (roles (clients s)) (new_frames s s'))"

section \<open>Sample inputs\<close>

text \<open>
  A runtime and a short run of the hub on which the handlers are evaluated: two agents
  and a spectator connect, the first agent offers, the second accepts. The sample
  runtime prints the three prices that occur in the samples and replaces nothing; it
  only affects the text of narration lines.
\<close>

definition demo_rt :: jsrt where
  "demo_rt =
     \<lparr> numToString = (\<lambda>x. if x = 1 / 2 then ''0.5'' else if x = 2 then ''2'' else ''3''),
       strReplace = (\<lambda>subject _ _. subject) \<rparr>"

definition demo_offer :: OfferMsg where
  "demo_offer = \<lparr> o_id = ''o1'', o_price = 1 / 2, o_skill = ''design'', o_from = ''A'' \<rparr>"

definition demo_accept :: AcceptMsg where
  "demo_accept = \<lparr> a_id = ''o1'', a_from = ''B'' \<rparr>"

definition demo_pay :: PayMsg where
  "demo_pay = \<lparr> p_id = ''o1'', p_tx = ''r1'', p_from = ''A'' \<rparr>"

definition demo_connect :: "event list" where
  "demo_connect =
     [Connection 1 ''c1'' None (Some ''Alice''), SocketState 1 OPEN,
      Connection 2 ''c2'' None (Some ''Bob''), SocketState 2 OPEN,
      Connection 3 ''c3'' (Some ''spectator'') (Some ''Eve''), SocketState 3 OPEN]"

definition demo_open :: hub where
  "demo_open = run demo_rt (demo_connect @ [Message 1 (Frame (OFFER demo_offer)) 0])"

definition demo_invoiced :: hub where
  "demo_invoiced = run demo_rt (demo_connect @
     [Message 1 (Frame (OFFER demo_offer)) 0, Message 2 (Frame (ACCEPT demo_accept)) 1000])"

definition demo_offer2 :: OfferMsg where
  "demo_offer2 = \<lparr> o_id = ''o2'', o_price = 3, o_skill = ''code'', o_from = ''B'' \<rparr>"

definition demo_two_invoices :: hub where
  "demo_two_invoices = run demo_rt (demo_connect @
     [Message 1 (Frame (OFFER demo_offer)) 0, Message 2 (Frame (ACCEPT demo_accept)) 1000,
      Message 2 (Frame (OFFER demo_offer2)) 400000,
      Message 1 (Frame (ACCEPT \<lparr> a_id = ''o2'', a_from = ''A'' \<rparr>)) 500000])"

definition demo_chat_empty :: "event list" where
  "demo_chat_empty =
     [Connection 1 ''c1'' None (Some ''Zed''),
      Message 1 (Frame (CHAT \<lparr> c_text = ''hello'', c_from = [] \<rparr>)) 0]"

section \<open>Basic facts\<close>

subsection \<open>Maps\<close>

lemma Map_get_Map_set: "Map_get (Map_set k v m) k' = (if k' = k then Some v else Map_get m k')"
  by (induction m) (auto simp: Map_get_def)

lemma Map_get_Map_delete: "Map_get (Map_delete k m) k' = (if k' = k then None else Map_get m k')"
  by (induction m) (auto simp: Map_get_def Map_delete_def)

lemma keys_Map_set: "set (map fst (Map_set k v m)) = insert k (set (map fst m))"
  by (induction m) auto

lemma distinct_Map_set: "distinct (map fst m) \<Longrightarrow> distinct (map fst (Map_set k v m))"
proof (induction m)
  case Nil
  then show ?case by simp
next
  case (Cons e es)
  have "fst e \<notin> fst ` set (Map_set k v es)" if "fst e \<noteq> k"
    using Cons.prems that keys_Map_set [of k v es] by auto
  with Cons show ?case by auto
qed

lemma distinct_Map_delete: "distinct (map fst m) \<Longrightarrow> distinct (map fst (Map_delete k m))"
  by (simp add: Map_delete_def distinct_map_filter)

lemma set_Map_set: "set (Map_set k v m) \<subseteq> insert (k, v) (set m)"
  by (induction m) auto

lemma set_Map_delete: "set (Map_delete k m) \<subseteq> set m"
  by (auto simp: Map_delete_def)

lemma count_Map_set:
  "distinct (map fst m) \<Longrightarrow> length (filter (\<lambda>e. fst e = k) (Map_set k v m)) = 1"
proof (induction m)
  case Nil
  then show ?case by simp
next
  case (Cons e es)
  show ?case
  proof (cases "fst e = k")
    case True
    then have "k \<notin> fst ` set es" using Cons.prems by simp
    then have "\<forall>x\<in>set es. fst x \<noteq> k" by (metis imageI)
    then have "filter (\<lambda>e. fst e = k) es = []" by (simp add: filter_empty_conv)
    with True show ?thesis by simp
  next
    case False
    with Cons show ?thesis by simp
  qed
qed

lemma ws_send_fields [simp]:
  "clients (ws_send w f s) = clients s"
  "activeOffers (ws_send w f s) = activeOffers s"
  "activeInvoices (ws_send w f s) = activeInvoices s"
  "transactions (ws_send w f s) = transactions s"
  "readyState (ws_send w f s) = readyState s"
  "sent (ws_send w f s) = sent s @ [(w, f)]"
  by (simp_all add: ws_send_def)

lemma broadcast_loop_only_sent:
  "\<exists>xs. broadcast_loop m sd cs s = s\<lparr> sent := sent s @ xs \<rparr>"
proof (induction cs arbitrary: s)
  case Nil
  have "s = s\<lparr> sent := sent s @ [] \<rparr>" by simp
  then show ?case by (metis broadcast_loop.simps(1))
next
  case (Cons c cs)
  obtain w cl where c: "c = (w, cl)" by (cases c)
  show ?case
    using Cons [of s] Cons [of "ws_send w m s"]
    by (auto simp: c ws_send_def)
qed

lemma broadcast_only_sent: "\<exists>xs. broadcast m sd s = s\<lparr> sent := sent s @ xs \<rparr>"
  unfolding broadcast_def by (rule broadcast_loop_only_sent)

lemma broadcastToAgents_loop_only_sent:
  "\<exists>xs. broadcastToAgents_loop m sd cs s = s\<lparr> sent := sent s @ xs \<rparr>"
proof (induction cs arbitrary: s)
  case Nil
  have "s = s\<lparr> sent := sent s @ [] \<rparr>" by simp
  then show ?case by (metis broadcastToAgents_loop.simps(1))
next
  case (Cons c cs)
  obtain w cl where c: "c = (w, cl)" by (cases c)
  show ?case
    using Cons [of s] Cons [of "ws_send w m s"]
    by (auto simp: c ws_send_def)
qed

lemma broadcastToAgents_only_sent: "\<exists>xs. broadcastToAgents m sd s = s\<lparr> sent := sent s @ xs \<rparr>"
  unfolding broadcastToAgents_def by (rule broadcastToAgents_loop_only_sent)

lemma sendToAddress_loop_only_sent:
  "\<exists>xs. snd (sendToAddress_loop a m cs s) = s\<lparr> sent := sent s @ xs \<rparr>"
proof (induction cs)
  case Nil
  have "s = s\<lparr> sent := sent s @ [] \<rparr>" by simp
  then show ?case by (metis sendToAddress_loop.simps(1) snd_conv)
next
  case (Cons c cs)
  obtain w cl where c: "c = (w, cl)" by (cases c)
  show ?case
    using Cons by (auto simp: c ws_send_def)
qed

lemma sendToAddress_only_sent: "\<exists>xs. snd (sendToAddress a m s) = s\<lparr> sent := sent s @ xs \<rparr>"
  unfolding sendToAddress_def by (rule sendToAddress_loop_only_sent)

lemma broadcast_fields [simp]:
  "clients (broadcast m sd s) = clients s"
  "activeOffers (broadcast m sd s) = activeOffers s"
  "activeInvoices (broadcast m sd s) = activeInvoices s"
  "transactions (broadcast m sd s) = transactions s"
  "readyState (broadcast m sd s) = readyState s"
  using broadcast_only_sent [of m sd s] by auto

lemma broadcastToAgents_fields [simp]:
  "clients (broadcastToAgents m sd s) = clients s"
  "activeOffers (broadcastToAgents m sd s) = activeOffers s"
  "activeInvoices (broadcastToAgents m sd s) = activeInvoices s"
  "transactions (broadcastToAgents m sd s) = transactions s"
  "readyState (broadcastToAgents m sd s) = readyState s"
  using broadcastToAgents_only_sent [of m sd s] by auto

lemma sendToAddress_fields [simp]:
  "clients (snd (sendToAddress a m s)) = clients s"
  "activeOffers (snd (sendToAddress a m s)) = activeOffers s"
  "activeInvoices (snd (sendToAddress a m s)) = activeInvoices s"
  "transactions (snd (sendToAddress a m s)) = transactions s"
  "readyState (snd (sendToAddress a m s)) = readyState s"
  using sendToAddress_only_sent [of a m s] by auto

lemma bind_address_fields [simp]:
  "activeOffers (bind_address w a s) = activeOffers s"
  "activeInvoices (bind_address w a s) = activeInvoices s"
  "transactions (bind_address w a s) = transactions s"
  "readyState (bind_address w a s) = readyState s"
  "sent (bind_address w a s) = sent s"
  by (simp_all add: bind_address_def split: option.splits)

lemma bind_address_named_fields [simp]:
  "activeOffers (bind_address_named w a s) = activeOffers s"
  "activeInvoices (bind_address_named w a s) = activeInvoices s"
  "transactions (bind_address_named w a s) = transactions s"
  "readyState (bind_address_named w a s) = readyState s"
  "sent (bind_address_named w a s) = sent s"
  by (simp_all add: bind_address_named_def split: option.splits)

text \<open>The ledger fields after each handler.\<close>

lemma handleOffer_ledger:
  "activeOffers (handleOffer rt offer ws s) =
     (if validateOffer offer then Map_set (o_id offer) offer (activeOffers s) else activeOffers s)"
  "activeInvoices (handleOffer rt offer ws s) = activeInvoices s"
  "transactions (handleOffer rt offer ws s) = transactions s"
  by (simp_all add: handleOffer_def Let_def)

lemma handleAccept_ledger:
  "activeOffers (handleAccept rt accept ws now s) = activeOffers s"
  "transactions (handleAccept rt accept ws now s) = transactions s"
  "activeInvoices (handleAccept rt accept ws now s) =
     (case Map_get (activeOffers s) (a_id accept) of
        None \<Rightarrow> activeInvoices s
      | Some off \<Rightarrow>
          if a_from accept = o_from off then activeInvoices s
          else Map_set (o_id off)
                 \<lparr> inv_id = o_id off, buyer = o_from off, seller = a_from accept,
                   price = o_price off, skill = o_skill off, timestamp = now \<rparr>
                 (activeInvoices s))"
  by (simp_all add: handleAccept_def Let_def validateAccept_def createInvoice_def
      split: option.splits)

lemma handleAccept_rejected:
  "\<not> validateAccept accept (Map_get (activeOffers s) (a_id accept)) \<Longrightarrow>
   handleAccept rt accept ws now s = s"
  by (simp add: handleAccept_def Let_def)

lemma handlePayment_rejected:
  "\<not> validatePayment pay (Map_get (activeInvoices s) (p_id pay)) \<Longrightarrow>
   handlePayment rt pay ws now s = s"
  by (simp add: handlePayment_def Let_def getInvoice_def)

lemma handlePayment_ledger:
  assumes "validatePayment pay (Map_get (activeInvoices s) (p_id pay))"
    and "Map_get (activeInvoices s) (p_id pay) = Some iv"
  shows "activeOffers (handlePayment rt pay ws now s) = Map_delete (p_id pay) (activeOffers s)"
    and "activeInvoices (handlePayment rt pay ws now s) = Map_delete (p_id pay) (activeInvoices s)"
    and "transactions (handlePayment rt pay ws now s) = transactions s @
          [\<lparr> tx_id = p_id pay, tx_timestamp = now, tx_from = buyer iv, tx_to = seller iv,
             amount = price iv, txHash = p_tx pay, status = completed \<rparr>]"
  using assms
  by (simp_all add: handlePayment_def Let_def getInvoice_def completeInvoice_def Map_get_def
      bind_address_named_def split: option.splits)


subsection \<open>The sample run\<close>

lemmas hub_defs = run_def onConnection_def onMessage_def handleMessage_def handleOffer_def
  handleAccept_def handlePayment_def handleChat_def bind_address_def bind_address_named_def
  name_or_generated_def or_else_def broadcast_def broadcastToAgents_def sendToAddress_def
  ws_send_def validateOffer_def validateAccept_def validatePayment_def createInvoice_def
  completeInvoice_def getInvoice_def Map_get_def Map_delete_def is_spectator_def raw_t_def
  spectator_kind_def initial_def introduce_def

lemma demo_open_eval:
  "demo_open = \<lparr>clients =
    [(1, \<lparr>client_id = ''c1'', isAlive = True, address = Some ''A'',
            name = Some ''Alice'', client_type = None, connectionType = agent\<rparr>),
     (2, \<lparr>client_id = ''c2'', isAlive = True, address = None,
            name = Some ''Bob'', client_type = None, connectionType = agent\<rparr>),
     (3, \<lparr>client_id = ''c3'', isAlive = True, address = None,
            name = Some ''Eve'', client_type = None, connectionType = spectator\<rparr>)],
    activeOffers =
      [(''o1'', \<lparr>o_id = ''o1'', o_price = 1 / 2, o_skill = ''design'', o_from = ''A''\<rparr>)],
    activeInvoices = [],
    transactions = [], readyState = (\<lambda>_. CONNECTING)(1 := OPEN, 2 := OPEN, 3 := OPEN),
    sent = sent demo_open \<rparr>"
  by (simp add: demo_open_def demo_connect_def demo_offer_def hub_defs Let_def)

lemma demo_invoiced_eval:
  "demo_invoiced = \<lparr>clients =
    [(1, \<lparr>client_id = ''c1'', isAlive = True, address = Some ''A'',
            name = Some ''Alice'', client_type = None, connectionType = agent\<rparr>),
     (2, \<lparr>client_id = ''c2'', isAlive = True, address = Some ''B'',
            name = Some ''Bob'', client_type = None, connectionType = agent\<rparr>),
     (3, \<lparr>client_id = ''c3'', isAlive = True, address = None,
            name = Some ''Eve'', client_type = None, connectionType = spectator\<rparr>)],
    activeOffers =
      [(''o1'', \<lparr>o_id = ''o1'', o_price = 1 / 2, o_skill = ''design'', o_from = ''A''\<rparr>)],
    activeInvoices =
      [(''o1'', \<lparr>inv_id = ''o1'', buyer = ''A'', seller = ''B'', price = 1 / 2,
                 skill = ''design'', timestamp = 1000\<rparr>)],
    transactions = [], readyState = (\<lambda>_. CONNECTING)(1 := OPEN, 2 := OPEN, 3 := OPEN),
    sent = sent demo_invoiced \<rparr>"
  by (simp add: demo_invoiced_def demo_connect_def demo_offer_def demo_accept_def hub_defs Let_def)

subsection \<open>Dispatch and reset\<close>

lemma onMessage_not_spectator:
  "\<not> is_spectator (Map_get (clients s) ws) \<Longrightarrow>
   onMessage rt ws (Frame (PAY p)) now s = handlePayment rt p ws now s"
  by (simp add: onMessage_def handleMessage_def)

lemma reset_loop_eq:
  "reset_loop cs s = s\<lparr> sent := sent s @ map (\<lambda>e. (fst e, Msg (CHAT resetMsg)))
                                          (filter (\<lambda>e. readyState s (fst e) = OPEN) cs) \<rparr>"
proof (induction cs arbitrary: s)
  case Nil
  show ?case by simp
next
  case (Cons c cs)
  obtain w cl where c: "c = (w, cl)" by (cases c)
  show ?case
    by (simp add: c Cons ws_send_def)
qed

subsection \<open>The expiry sweep, roles, and the invariant of runs\<close>

lemma cleanup_loop_filter:
  "cleanup_loop now es m =
     filter (\<lambda>e. fst e \<notin> fst ` {x \<in> set es. now - timestamp (snd x) > expiryTime}) m"
proof (induction es arbitrary: m)
  case Nil
  show ?case by simp
next
  case (Cons c es)
  obtain i iv where c: "c = (i, iv)" by (cases c)
  let ?K = "\<lambda>es. fst ` {x \<in> set es. now - timestamp (snd x) > expiryTime}"
  have "{x \<in> set (c # es). now - timestamp (snd x) > expiryTime} =
        (if now - timestamp iv > expiryTime
         then insert c {x \<in> set es. now - timestamp (snd x) > expiryTime}
         else {x \<in> set es. now - timestamp (snd x) > expiryTime})"
    by (auto simp: c)
  then have K: "?K (c # es) = (if now - timestamp iv > expiryTime then insert i (?K es) else ?K es)"
    by (simp add: c)
  show ?case
  proof (cases "now - timestamp iv > expiryTime")
    case True
    have "cleanup_loop now (c # es) m = filter (\<lambda>e. fst e \<notin> ?K es) (Map_delete i m)"
      using True by (simp only: c cleanup_loop.simps Cons if_True)
    also have "\<dots> = filter (\<lambda>e. fst e \<noteq> i \<and> fst e \<notin> ?K es) m"
      by (simp add: Map_delete_def conj_commute)
    also have "\<dots> = filter (\<lambda>e. fst e \<notin> ?K (c # es)) m"
      unfolding K using True by simp
    finally show ?thesis .
  next
    case False
    have "cleanup_loop now (c # es) m = filter (\<lambda>e. fst e \<notin> ?K es) m"
      using False by (simp only: c cleanup_loop.simps Cons if_False)
    also have "\<dots> = filter (\<lambda>e. fst e \<notin> ?K (c # es)) m"
      unfolding K using False by simp
    finally show ?thesis .
  qed
qed

lemma same_key_same_entry:
  "distinct (map fst m) \<Longrightarrow> x \<in> set m \<Longrightarrow> e \<in> set m \<Longrightarrow> fst x = fst e \<Longrightarrow> x = e"
  by (metis eq_key_imp_eq_value prod.collapse)

lemma cleanup_loop_self:
  assumes "distinct (map fst m)"
  shows "cleanup_loop now m m = filter (\<lambda>e. \<not> now - timestamp (snd e) > expiryTime) m"
proof -
  have "(fst e \<notin> fst ` {x \<in> set m. now - timestamp (snd x) > expiryTime})
        = (\<not> now - timestamp (snd e) > expiryTime)" if "e \<in> set m" for e
    using that same_key_same_entry [OF assms _ that] by force
  then show ?thesis
    unfolding cleanup_loop_filter by (intro filter_cong) auto
qed

lemma run_snoc: "run rt (evs @ [ev]) = step rt (run rt evs) ev"
  by (simp add: run_def)

lemma map_fst_roles: "map fst (roles cs) = map fst cs"
  by (simp add: roles_def)

lemma roles_Map_set:
  "Map_get m k = Some c \<Longrightarrow> connectionType c' = connectionType c \<Longrightarrow>
   roles (Map_set k c' m) = roles m"
  by (induction m) (auto simp: roles_def Map_get_def split: if_splits)

lemma roles_bind_address [simp]: "roles (clients (bind_address w a s)) = roles (clients s)"
  by (simp add: bind_address_def roles_Map_set split: option.splits)

lemma roles_bind_address_named [simp]:
  "roles (clients (bind_address_named w a s)) = roles (clients s)"
  by (simp add: bind_address_named_def roles_Map_set split: option.splits)

lemma roles_displayName_loop [simp]: "roles (displayName_loop a cs) = roles cs"
  by (induction a cs rule: displayName_loop.induct) (auto simp: roles_def)

lemma roles_introduce [simp]: "roles (clients (introduce w c s)) = roles (clients s)"
  by (simp add: introduce_def Let_def roles_Map_set split: option.splits)

lemma roles_handleOffer [simp]: "roles (clients (handleOffer rt offer w s)) = roles (clients s)"
  by (simp add: handleOffer_def Let_def)

lemma roles_handleAccept [simp]:
  "roles (clients (handleAccept rt accept w now s)) = roles (clients s)"
  by (simp add: handleAccept_def Let_def createInvoice_def split: option.splits)

lemma roles_handlePayment [simp]:
  "roles (clients (handlePayment rt pay w now s)) = roles (clients s)"
  by (simp add: handlePayment_def Let_def completeInvoice_def split: option.splits)

lemma roles_handleChat [simp]: "roles (clients (handleChat rt chat w s)) = roles (clients s)"
  by (simp add: handleChat_def Let_def)

lemma roles_onMessage [simp]: "roles (clients (onMessage rt w d now s)) = roles (clients s)"
  by (simp add: onMessage_def handleMessage_def split: RawData.splits AnyMsg.splits)

lemma handleChat_ledger [simp]:
  "activeOffers (handleChat rt chat w s) = activeOffers s"
  "activeInvoices (handleChat rt chat w s) = activeInvoices s"
  "transactions (handleChat rt chat w s) = transactions s"
  by (simp_all add: handleChat_def Let_def)

lemma introduce_ledger [simp]:
  "activeOffers (introduce w c s) = activeOffers s"
  "activeInvoices (introduce w c s) = activeInvoices s"
  "transactions (introduce w c s) = transactions s"
  "readyState (introduce w c s) = readyState s"
  "sent (introduce w c s) = sent s"
  by (simp_all add: introduce_def Let_def split: option.splits)

lemma distinct_heartbeat_loop: "distinct (map fst cs) \<Longrightarrow> distinct (map fst (heartbeat_loop cs))"
proof (induction cs rule: heartbeat_loop.induct)
  case 1
  show ?case by simp
next
  case (2 w cl rest)
  have "fst ` set (heartbeat_loop rest) \<subseteq> fst ` set rest" for rest
    by (induction rest rule: heartbeat_loop.induct) auto
  with 2 show ?case by auto
qed

text \<open>The invariant of the three ledger operations.\<close>

lemma inv_offers_handleOffer:
  "distinct (map fst (activeOffers s)) \<Longrightarrow> distinct (map fst (activeOffers (handleOffer rt offer w s)))"
  by (simp add: handleOffer_ledger distinct_Map_set)

lemma list_all_Map_set: "P (k, v) \<Longrightarrow> list_all P m \<Longrightarrow> list_all P (Map_set k v m)"
  by (induction m) auto

lemma inv_invoices_handleAccept:
  assumes "distinct (map fst (activeInvoices s))"
    and "list_all (\<lambda>e. buyer (snd e) \<noteq> seller (snd e)) (activeInvoices s)"
  shows "distinct (map fst (activeInvoices (handleAccept rt a w now s)))"
    and "list_all (\<lambda>e. buyer (snd e) \<noteq> seller (snd e)) (activeInvoices (handleAccept rt a w now s))"
  using assms
  by (simp_all add: handleAccept_ledger distinct_Map_set list_all_Map_set split: option.splits)

lemma handlePayment_ledger_subset:
  "activeOffers (handlePayment rt p w now s) = activeOffers s
     \<or> activeOffers (handlePayment rt p w now s) = Map_delete (p_id p) (activeOffers s)"
  "activeInvoices (handlePayment rt p w now s) = activeInvoices s
     \<or> activeInvoices (handlePayment rt p w now s) = Map_delete (p_id p) (activeInvoices s)"
proof -
  show "activeOffers (handlePayment rt p w now s) = activeOffers s
     \<or> activeOffers (handlePayment rt p w now s) = Map_delete (p_id p) (activeOffers s)"
  proof (cases "validatePayment p (Map_get (activeInvoices s) (p_id p))")
    case True
    then obtain iv where "Map_get (activeInvoices s) (p_id p) = Some iv"
      by (auto simp: validatePayment_def split: option.splits)
    from handlePayment_ledger(1) [OF True this] show ?thesis by simp
  next
    case False
    then show ?thesis by (simp add: handlePayment_rejected)
  qed
  show "activeInvoices (handlePayment rt p w now s) = activeInvoices s
     \<or> activeInvoices (handlePayment rt p w now s) = Map_delete (p_id p) (activeInvoices s)"
  proof (cases "validatePayment p (Map_get (activeInvoices s) (p_id p))")
    case True
    then obtain iv where "Map_get (activeInvoices s) (p_id p) = Some iv"
      by (auto simp: validatePayment_def split: option.splits)
    from handlePayment_ledger(2) [OF True this] show ?thesis by simp
  next
    case False
    then show ?thesis by (simp add: handlePayment_rejected)
  qed
qed

lemma list_all_Map_delete: "list_all P m \<Longrightarrow> list_all P (Map_delete k m)"
  by (simp add: Map_delete_def list_all_iff)

lemma hub_inv_clients_roles:
  "roles (clients s') = roles (clients s) \<Longrightarrow> distinct (map fst (clients s)) \<Longrightarrow>
   distinct (map fst (clients s'))"
  by (metis map_fst_roles)

lemma hub_inv_onMessage: "hub_inv s \<Longrightarrow> hub_inv (onMessage rt w d now s)"
proof -
  assume inv: "hub_inv s"
  have cl: "distinct (map fst (clients (onMessage rt w d now s)))"
    using inv hub_inv_clients_roles [of "onMessage rt w d now s" s] by (simp add: hub_inv_def)
  have led: "distinct (map fst (activeOffers (onMessage rt w d now s)))
      \<and> distinct (map fst (activeInvoices (onMessage rt w d now s)))
      \<and> list_all (\<lambda>e. buyer (snd e) \<noteq> seller (snd e)) (activeInvoices (onMessage rt w d now s))"
  proof (cases d)
    case Unparsable
    with inv show ?thesis by (simp add: onMessage_def hub_inv_def)
  next
    case UnknownKind
    with inv show ?thesis by (simp add: onMessage_def hub_inv_def)
  next
    case (Frame m)
    show ?thesis
    proof (cases "is_spectator (Map_get (clients s) w) \<and> raw_t d \<noteq> Some ''CHAT''")
      case True
      with inv Frame show ?thesis by (simp add: onMessage_def hub_inv_def)
    next
      case False
      show ?thesis
      proof (cases m)
        case (OFFER x)
        with inv Frame False show ?thesis
          by (simp add: onMessage_def hub_inv_def handleMessage_def handleOffer_ledger distinct_Map_set)
      next
        case (ACCEPT x)
        with inv Frame False inv_invoices_handleAccept [of s rt x w now] show ?thesis
          by (simp add: onMessage_def hub_inv_def handleMessage_def handleAccept_ledger(1))
      next
        case (PAY x)
        with inv Frame False handlePayment_ledger_subset [of rt x w now s] show ?thesis
          by (auto simp: onMessage_def hub_inv_def handleMessage_def distinct_Map_delete
              list_all_Map_delete)
      next
        case (CHAT x)
        with inv Frame False show ?thesis
          by (simp add: onMessage_def hub_inv_def handleMessage_def)
      next
        case (INVOICE x)
        with inv Frame False show ?thesis
          by (simp add: onMessage_def hub_inv_def handleMessage_def)
      qed
    qed
  qed
  show ?thesis using cl led by (simp add: hub_inv_def)
qed

lemma cleanup_fields [simp]:
  "clients (cleanupExpiredInvoices now s) = clients s"
  "activeOffers (cleanupExpiredInvoices now s) = activeOffers s"
  "transactions (cleanupExpiredInvoices now s) = transactions s"
  "sent (cleanupExpiredInvoices now s) = sent s"
  "readyState (cleanupExpiredInvoices now s) = readyState s"
  by (simp_all add: cleanupExpiredInvoices_def)

lemma hub_inv_step: "hub_inv s \<Longrightarrow> hub_inv (step rt s ev)"
proof (cases ev)
  case (Message w d now)
  assume "hub_inv s"
  with Message show ?thesis by (simp add: hub_inv_onMessage)
next
  case (Connection w i qt qn)
  assume "hub_inv s"
  with Connection show ?thesis
    by (simp add: hub_inv_def onConnection_def Let_def distinct_Map_set)
next
  case (Pong w)
  assume "hub_inv s"
  with Pong show ?thesis
    by (simp add: hub_inv_def onPong_def distinct_Map_set split: option.splits)
next
  case (Close w)
  assume "hub_inv s"
  with Close show ?thesis by (simp add: hub_inv_def onClose_def distinct_Map_delete)
next
  case (Error w)
  assume "hub_inv s"
  with Error show ?thesis by (simp add: hub_inv_def onError_def distinct_Map_delete)
next
  case Heartbeat
  assume "hub_inv s"
  with Heartbeat show ?thesis by (simp add: hub_inv_def heartbeat_def distinct_heartbeat_loop)
next
  case (Cleanup now)
  assume "hub_inv s"
  with Cleanup show ?thesis
    by (simp add: hub_inv_def cleanupExpiredInvoices_def cleanup_loop_filter
        distinct_map_filter list_all_iff)
next
  case Reset
  assume "hub_inv s"
  with Reset show ?thesis by (simp add: hub_inv_def api_reset_def Let_def reset_loop_eq)
next
  case (SocketState w st)
  assume "hub_inv s"
  with SocketState show ?thesis by (simp add: hub_inv_def)
qed

lemma hub_inv_run: "hub_inv (run rt evs)"
proof (induction evs rule: rev_induct)
  case Nil
  show ?case by (simp add: run_def initial_def hub_inv_def)
next
  case (snoc ev evs)
  then show ?case by (simp add: run_snoc hub_inv_step)
qed


lemma demo_two_invoices_eval:
  "activeInvoices demo_two_invoices =
     [(''o1'', \<lparr>inv_id = ''o1'', buyer = ''A'', seller = ''B'', price = 1 / 2,
                skill = ''design'', timestamp = 1000\<rparr>),
      (''o2'', \<lparr>inv_id = ''o2'', buyer = ''B'', seller = ''A'', price = 3,
                skill = ''code'', timestamp = 500000\<rparr>)]"
  "transactions demo_two_invoices = []"
  by (simp_all add: demo_two_invoices_def demo_connect_def demo_offer_def demo_accept_def
      demo_offer2_def hub_defs Let_def)

lemma onMessage_ACCEPT_invoices:
  "activeInvoices (onMessage rt ws (Frame (ACCEPT a)) now s) = activeInvoices s
   \<or> onMessage rt ws (Frame (ACCEPT a)) now s = handleAccept rt a ws now s"
  by (simp add: onMessage_def handleMessage_def)

lemma count_le_one_distinct:
  "distinct (map fst m) \<Longrightarrow> length (filter (\<lambda>e. fst e = k) m) \<le> 1"
proof (induction m)
  case Nil
  show ?case by simp
next
  case (Cons e es)
  show ?case
  proof (cases "fst e = k")
    case True
    then have "k \<notin> fst ` set es" using Cons.prems by simp
    then have "\<forall>x\<in>set es. fst x \<noteq> k" by (metis imageI)
    then have "filter (\<lambda>e. fst e = k) es = []" by (simp add: filter_empty_conv)
    with True show ?thesis by simp
  next
    case False
    with Cons show ?thesis by simp
  qed
qed

lemma step_offers_untouched:
  "\<not> touches_offer k ev \<Longrightarrow> Map_get (activeOffers (step rt s ev)) k = Map_get (activeOffers s) k"
proof (cases ev)
  case (Message w d now)
  assume nt: "\<not> touches_offer k ev"
  show ?thesis
  proof (cases d)
    case Unparsable
    with Message show ?thesis by (simp add: onMessage_def)
  next
    case UnknownKind
    with Message show ?thesis by (simp add: onMessage_def)
  next
    case (Frame m)
    show ?thesis
    proof (cases m)
      case (OFFER x)
      with nt Message Frame show ?thesis
        by (simp add: onMessage_def handleMessage_def handleOffer_ledger Map_get_Map_set)
    next
      case (ACCEPT x)
      with Message Frame show ?thesis
        by (simp add: onMessage_def handleMessage_def handleAccept_ledger)
    next
      case (PAY x)
      with nt Message Frame handlePayment_ledger_subset(1) [of rt x w now s] show ?thesis
        by (auto simp: onMessage_def handleMessage_def Map_get_Map_delete)
    next
      case (CHAT x)
      with Message Frame show ?thesis
        by (simp add: onMessage_def handleMessage_def)
    next
      case (INVOICE x)
      with Message Frame show ?thesis
        by (simp add: onMessage_def handleMessage_def)
    qed
  qed
qed (simp_all add: onConnection_def Let_def onPong_def onClose_def onError_def heartbeat_def
      split: option.splits)

subsection \<open>Addresses\<close>

lemma bindf_idem: "bindf ws a w (bindf ws a w x) = bindf ws a w x"
  by (simp add: bindf_def)

lemma addr_of_bind_address:
  "addr_of (bind_address ws a s) w = map_option (bindf ws a w) (addr_of s w)"
  by (cases "Map_get (clients s) w"; cases "Map_get (clients s) ws")
    (auto simp: addr_of_def bind_address_def bindf_def Map_get_Map_set)

lemma addr_of_bind_address_named:
  "addr_of (bind_address_named ws a s) w = map_option (bindf ws a w) (addr_of s w)"
  by (cases "Map_get (clients s) w"; cases "Map_get (clients s) ws")
    (auto simp: addr_of_def bind_address_named_def bindf_def Map_get_Map_set)

lemma addr_of_clients_cong: "clients s' = clients s \<Longrightarrow> addr_of s' w = addr_of s w"
  by (simp add: addr_of_def)

lemma address_displayName_loop:
  "map_option address (map_of (displayName_loop a cs) w) = map_option address (map_of cs w)"
  by (induction a cs rule: displayName_loop.induct) auto

lemma addr_of_handleOffer:
  "addr_of (handleOffer rt offer ws s) w =
     (if validateOffer offer then map_option (bindf ws (o_from offer) w) (addr_of s w)
      else addr_of s w)"
proof (cases "validateOffer offer")
  case True
  then have "clients (handleOffer rt offer ws s) = clients (bind_address ws (o_from offer) s)"
    by (simp add: handleOffer_def Let_def)
  from addr_of_clients_cong [OF this] True show ?thesis
    by (simp add: addr_of_bind_address)
next
  case False
  then show ?thesis by (simp add: handleOffer_def)
qed

lemma addr_of_handleAccept:
  "addr_of (handleAccept rt accept ws now s) w =
     (if validateAccept accept (Map_get (activeOffers s) (a_id accept))
      then map_option (bindf ws (a_from accept) w) (addr_of s w)
      else addr_of s w)"
proof (cases "validateAccept accept (Map_get (activeOffers s) (a_id accept))")
  case True
  then have "clients (handleAccept rt accept ws now s) = clients (bind_address ws (a_from accept) s)"
    by (simp add: handleAccept_def Let_def createInvoice_def split: option.splits)
  from addr_of_clients_cong [OF this] True show ?thesis
    by (simp add: addr_of_bind_address)
next
  case False
  then show ?thesis by (simp add: handleAccept_rejected)
qed

lemma addr_of_handlePayment:
  "addr_of (handlePayment rt pay ws now s) w =
     (if validatePayment pay (Map_get (activeInvoices s) (p_id pay))
      then map_option (bindf ws (p_from pay) w) (addr_of s w)
      else addr_of s w)"
proof (cases "validatePayment pay (Map_get (activeInvoices s) (p_id pay))")
  case True
  then have "clients (handlePayment rt pay ws now s) = clients (bind_address_named ws (p_from pay) s)"
    by (simp add: handlePayment_def Let_def completeInvoice_def getInvoice_def split: option.splits)
  from addr_of_clients_cong [OF this] True show ?thesis
    by (simp add: addr_of_bind_address_named)
next
  case False
  then show ?thesis by (simp add: handlePayment_rejected)
qed

lemma addr_of_handleChat:
  "addr_of (handleChat rt chat ws s) w =
     (if c_from chat \<noteq> ''system'' then map_option (bindf ws (c_from chat) w) (addr_of s w)
      else addr_of s w)"
proof (cases "c_from chat \<noteq> ''system''")
  case True
  then have "clients (handleChat rt chat ws s) =
      displayName_loop (c_from chat) (clients (bind_address ws (c_from chat) s))"
    by (simp add: handleChat_def Let_def)
  then have "addr_of (handleChat rt chat ws s) w = addr_of (bind_address ws (c_from chat) s) w"
    by (simp add: addr_of_def Map_get_def address_displayName_loop)
  with True show ?thesis by (simp add: addr_of_bind_address)
next
  case False
  then have "clients (handleChat rt chat ws s) = clients s"
    by (simp add: handleChat_def Let_def)
  from addr_of_clients_cong [OF this] False show ?thesis by simp
qed

lemma addr_of_introduce:
  "addr_of (introduce ws chat s) w =
     (if c_from chat \<noteq> ''system'' then map_option (bindf ws (c_from chat) w) (addr_of s w)
      else addr_of s w)"
  by (cases "Map_get (clients s) w"; cases "Map_get (clients s) ws")
    (auto simp: addr_of_def introduce_def Let_def bindf_def Map_get_Map_set split: option.splits)

lemma addr_of_ws_send [simp]: "addr_of (ws_send w' f s) w = addr_of s w"
  by (simp add: addr_of_def)

lemma demo_chat_empty_eval:
  "clients (run demo_rt demo_chat_empty) =
     [(1, \<lparr>client_id = ''c1'', isAlive = True, address = Some [],
            name = Some ''Zed'', client_type = None, connectionType = agent\<rparr>)]"
  by (simp add: demo_chat_empty_def hub_defs Let_def introAt_def)

subsection \<open>Frames and roles\<close>

lemma frames_ok_Nil [simp]: "frames_ok R []"
  by (simp add: frames_ok_def)

lemma frames_ok_append: "frames_ok R (xs @ ys) = (frames_ok R xs \<and> frames_ok R ys)"
  by (simp add: frames_ok_def)

lemma frames_ok_Cons:
  "frames_ok R (e # xs) = ((spectator_kind (snd e) \<or> (fst e, agent) \<in> set R) \<and> frames_ok R xs)"
  by (simp add: frames_ok_def)

lemma frames_ok_mono: "set R \<subseteq> set R' \<Longrightarrow> frames_ok R xs \<Longrightarrow> frames_ok R' xs"
  by (auto simp: frames_ok_def list_all_iff)

lemma roles_Cons: "roles ((w, cl) # cs) = (w, connectionType cl) # roles cs"
  by (simp add: roles_def)

lemma not_spectator: "(r \<noteq> spectator) = (r = agent)"
  by (cases r) simp_all

lemma broadcast_loop_sent:
  "\<exists>xs. sent (broadcast_loop m sd cs s) = sent s @ xs \<and> frames_ok (roles cs) xs"
proof (induction cs arbitrary: s)
  case Nil
  show ?case by simp
next
  case (Cons c cs)
  obtain w cl where c: "c = (w, cl)" by (cases c)
  have mono: "frames_ok (roles cs) xs \<Longrightarrow> frames_ok (roles (c # cs)) xs" for xs
    by (rule frames_ok_mono [of "roles cs"]) (auto simp: c roles_Cons)
  show ?case
  proof (cases "Some w \<noteq> sd \<and> readyState s w = OPEN
                 \<and> (connectionType cl = spectator \<longrightarrow> spectator_kind m)")
    case True
    then have eq: "broadcast_loop m sd (c # cs) s = broadcast_loop m sd cs (ws_send w m s)"
      by (auto simp: c)
    from Cons.IH [of "ws_send w m s"] obtain xs where
      xs: "sent (broadcast_loop m sd cs (ws_send w m s)) = sent (ws_send w m s) @ xs"
          "frames_ok (roles cs) xs" by blast
    have "spectator_kind m \<or> (w, agent) \<in> set (roles (c # cs))"
      using True by (cases "connectionType cl") (auto simp: c roles_Cons)
    then have "frames_ok (roles (c # cs)) ((w, m) # xs)"
      using mono [OF xs(2)] by (simp add: frames_ok_Cons)
    moreover have "sent (broadcast_loop m sd (c # cs) s) = sent s @ ((w, m) # xs)"
      by (simp add: eq xs(1))
    ultimately show ?thesis by blast
  next
    case False
    then have eq: "broadcast_loop m sd (c # cs) s = broadcast_loop m sd cs s"
      by (auto simp: c)
    from Cons.IH [of s] obtain xs where
      xs: "sent (broadcast_loop m sd cs s) = sent s @ xs" "frames_ok (roles cs) xs" by blast
    then show ?thesis using mono eq by auto
  qed
qed

lemma broadcastToAgents_loop_sent:
  "\<exists>xs. sent (broadcastToAgents_loop m sd cs s) = sent s @ xs \<and> frames_ok (roles cs) xs"
proof (induction cs arbitrary: s)
  case Nil
  show ?case by simp
next
  case (Cons c cs)
  obtain w cl where c: "c = (w, cl)" by (cases c)
  have mono: "frames_ok (roles cs) xs \<Longrightarrow> frames_ok (roles (c # cs)) xs" for xs
    by (rule frames_ok_mono [of "roles cs"]) (auto simp: c roles_Cons)
  show ?case
  proof (cases "Some w \<noteq> sd \<and> readyState s w = OPEN \<and> connectionType cl = agent")
    case True
    then have eq: "broadcastToAgents_loop m sd (c # cs) s
        = broadcastToAgents_loop m sd cs (ws_send w m s)"
      by (auto simp: c)
    from Cons.IH [of "ws_send w m s"] obtain xs where
      xs: "sent (broadcastToAgents_loop m sd cs (ws_send w m s)) = sent (ws_send w m s) @ xs"
          "frames_ok (roles cs) xs" by blast
    have "(w, agent) \<in> set (roles (c # cs))"
      using True by (auto simp: c roles_Cons)
    then have "frames_ok (roles (c # cs)) ((w, m) # xs)"
      using mono [OF xs(2)] by (simp add: frames_ok_Cons)
    moreover have "sent (broadcastToAgents_loop m sd (c # cs) s) = sent s @ ((w, m) # xs)"
      by (simp add: eq xs(1))
    ultimately show ?thesis by blast
  next
    case False
    then have eq: "broadcastToAgents_loop m sd (c # cs) s = broadcastToAgents_loop m sd cs s"
      by (auto simp: c)
    from Cons.IH [of s] obtain xs where
      xs: "sent (broadcastToAgents_loop m sd cs s) = sent s @ xs" "frames_ok (roles cs) xs"
      by blast
    then show ?thesis using mono eq by auto
  qed
qed

lemma sendToAddress_loop_sent:
  "\<exists>xs. sent (snd (sendToAddress_loop a m cs s)) = sent s @ xs \<and> frames_ok (roles cs) xs"
proof (induction cs)
  case Nil
  show ?case by simp
next
  case (Cons c cs)
  obtain w cl where c: "c = (w, cl)" by (cases c)
  have mono: "frames_ok (roles cs) xs \<Longrightarrow> frames_ok (roles (c # cs)) xs" for xs
    by (rule frames_ok_mono [of "roles cs"]) (auto simp: c roles_Cons)
  show ?case
  proof (cases "address cl = Some a \<and> readyState s w = OPEN \<and> connectionType cl = agent")
    case True
    then have "sent (snd (sendToAddress_loop a m (c # cs) s)) = sent s @ [(w, Msg m)]"
      by (simp add: c)
    moreover have "frames_ok (roles (c # cs)) [(w, Msg m)]"
      using True by (simp add: frames_ok_Cons c roles_Cons)
    ultimately show ?thesis by blast
  next
    case False
    then have "sendToAddress_loop a m (c # cs) s = sendToAddress_loop a m cs s"
      by (auto simp: c)
    with Cons mono show ?thesis by auto
  qed
qed

lemma emits_iff:
  "emits s s' = (roles (clients s') = roles (clients s)
     \<and> (\<exists>xs. sent s' = sent s @ xs \<and> frames_ok (roles (clients s)) xs))"
  by (auto simp: emits_def new_frames_def)

lemma emits_refl: "emits s s"
  by (simp add: emits_iff)

lemma emits_trans: "emits s s1 \<Longrightarrow> emits s1 s2 \<Longrightarrow> emits s s2"
  by (auto simp: emits_iff frames_ok_append)

lemma emits_silent:
  "roles (clients s') = roles (clients s) \<Longrightarrow> sent s' = sent s \<Longrightarrow> emits s s'"
  by (simp add: emits_iff)

lemma emits_broadcast: "emits s (broadcast m sd s)"
  using broadcast_loop_sent [of m sd "clients s" s] by (simp add: emits_iff broadcast_def [symmetric])

lemma emits_broadcastToAgents: "emits s (broadcastToAgents m sd s)"
  using broadcastToAgents_loop_sent [of m sd "clients s" s]
  by (simp add: emits_iff broadcastToAgents_def [symmetric])

lemma emits_sendToAddress: "emits s (snd (sendToAddress a m s))"
  using sendToAddress_loop_sent [of a m "clients s" s]
  by (simp add: emits_iff sendToAddress_def [symmetric])

lemma emits_bind_address: "emits s (bind_address w a s)"
  by (rule emits_silent) simp_all

lemma emits_bind_address_named: "emits s (bind_address_named w a s)"
  by (rule emits_silent) simp_all

lemma emits_then_broadcast: "emits s s1 \<Longrightarrow> emits s (broadcast m sd s1)"
  by (erule emits_trans) (rule emits_broadcast)

lemma emits_then_broadcastToAgents: "emits s s1 \<Longrightarrow> emits s (broadcastToAgents m sd s1)"
  by (erule emits_trans) (rule emits_broadcastToAgents)

lemma emits_then_sendToAddress: "emits s s1 \<Longrightarrow> emits s (snd (sendToAddress a m s1))"
  by (erule emits_trans) (rule emits_sendToAddress)

lemma emits_ws_send: "spectator_kind f \<Longrightarrow> emits s (ws_send w f s)"
  by (simp add: emits_iff frames_ok_Cons)

lemma emits_handleOffer: "emits s (handleOffer rt offer w s)"
proof (cases "validateOffer offer")
  case False
  then show ?thesis by (simp add: handleOffer_def emits_refl)
next
  case True
  then show ?thesis
    unfolding handleOffer_def Let_def
    by (simp only: not_True_eq_False if_False)
      (rule emits_then_broadcast, rule emits_then_broadcastToAgents, rule emits_silent, simp_all)
qed

lemma emits_handleAccept: "emits s (handleAccept rt accept w now s)"
proof (cases "validateAccept accept (Map_get (activeOffers s) (a_id accept))")
  case False
  then show ?thesis by (simp add: handleAccept_rejected emits_refl)
next
  case True
  then obtain off where off: "Map_get (activeOffers s) (a_id accept) = Some off"
    "a_from accept \<noteq> o_from off"
    by (auto simp: validateAccept_def split: option.splits if_splits)
  show ?thesis
    unfolding handleAccept_def Let_def createInvoice_def
    using True off
    by (simp only: not_True_eq_False if_False option.case case_prod_conv)
      (rule emits_then_sendToAddress, rule emits_then_sendToAddress, rule emits_then_broadcast,
        rule emits_then_broadcastToAgents, rule emits_silent, simp_all)
qed

lemma completeInvoice_fields [simp]:
  "clients (snd (completeInvoice i s)) = clients s"
  "activeOffers (snd (completeInvoice i s)) = activeOffers s"
  "transactions (snd (completeInvoice i s)) = transactions s"
  "readyState (snd (completeInvoice i s)) = readyState s"
  "sent (snd (completeInvoice i s)) = sent s"
  by (simp_all add: completeInvoice_def Let_def split: option.splits)

lemma emits_handlePayment: "emits s (handlePayment rt pay w now s)"
proof (cases "validatePayment pay (Map_get (activeInvoices s) (p_id pay))")
  case False
  then show ?thesis by (simp add: handlePayment_rejected emits_refl)
next
  case True
  then obtain iv where iv: "Map_get (activeInvoices s) (p_id pay) = Some iv"
    by (auto simp: validatePayment_def split: option.splits)
  show ?thesis
    unfolding handlePayment_def Let_def getInvoice_def
    using True iv
    by (simp only: not_True_eq_False if_False option.case)
      (rule emits_then_broadcast, rule emits_then_broadcastToAgents, rule emits_silent,
        simp_all)
qed

lemma emits_handleChat: "emits s (handleChat rt chat w s)"
  unfolding handleChat_def Let_def
  by (rule emits_then_broadcast, rule emits_silent) simp_all

lemma emits_introduce: "emits s (introduce w chat s)"
  by (rule emits_silent) simp_all

lemma spectator_kind_CHAT [simp]: "spectator_kind (Msg (CHAT c))"
  by (simp add: spectator_kind_def)

lemma emits_onMessage: "emits s (onMessage rt w d now s)"
proof (cases d)
  case Unparsable
  then show ?thesis by (simp add: onMessage_def emits_refl)
next
  case UnknownKind
  then show ?thesis by (simp add: onMessage_def emits_refl emits_ws_send)
next
  case (Frame m)
  show ?thesis
  proof (cases "is_spectator (Map_get (clients s) w) \<and> raw_t d \<noteq> Some ''CHAT''")
    case True
    with Frame show ?thesis by (simp add: onMessage_def emits_ws_send)
  next
    case False
    show ?thesis
    proof (cases m)
      case (CHAT x)
      have "emits s (handleChat rt x w (introduce w x s))"
        by (rule emits_trans [OF emits_introduce emits_handleChat])
      with False Frame CHAT show ?thesis
        by (simp add: onMessage_def handleMessage_def raw_t_def)
    qed (use False Frame in \<open>auto simp: onMessage_def handleMessage_def emits_handleOffer
          emits_handleAccept emits_handlePayment emits_refl\<close>)
  qed
qed

lemma frames_ok_spectator_kind: "list_all (\<lambda>e. spectator_kind (snd e)) xs \<Longrightarrow> frames_ok R xs"
  by (simp add: frames_ok_def list_all_iff)

lemma step_frames:
  "\<exists>xs. sent (step rt s ev) = sent s @ xs
        \<and> frames_ok (roles (clients s)) xs \<and> frames_ok (roles (clients (step rt s ev))) xs"
proof (cases ev)
  case (Message w d now)
  with emits_onMessage [of s rt w d now] show ?thesis by (auto simp: emits_iff)
next
  case (Connection w i qt qn)
  then show ?thesis
    by (simp add: onConnection_def Let_def frames_ok_Cons)
next
  case Reset
  have "list_all (\<lambda>e. spectator_kind (snd e)) (map (\<lambda>e. (fst e, Msg (CHAT resetMsg))) cs)" for cs :: "(WebSocket \<times> client) list"
    by (simp add: list_all_iff)
  with Reset show ?thesis
    by (simp add: api_reset_def Let_def reset_loop_eq frames_ok_spectator_kind)
qed (simp_all add: onPong_def onClose_def onError_def heartbeat_def split: option.splits)

lemma roles_lookup:
  "distinct (map fst cs) \<Longrightarrow> (w, r) \<in> set (roles cs) \<Longrightarrow>
   \<exists>cl. Map_get cs w = Some cl \<and> connectionType cl = r"
  by (auto simp: roles_def Map_get_def)

lemma spectator_kind_not_invoice: "spectator_kind f \<Longrightarrow> \<not> is_invoice f"
  by (auto simp: spectator_kind_def is_invoice_def split: payload.splits AnyMsg.splits)

lemma demo_invoiced_sent:
  "sent demo_invoiced = sent demo_open @
      [(1, Msg (ACCEPT \<lparr>a_id = ''o1'', a_from = ''B''\<rparr>)),
       (1, Msg (CHAT \<lparr>c_text = ''Bob accepted offer o1 from Alice'', c_from = ''system''\<rparr>)),
       (3, Msg (CHAT \<lparr>c_text = ''Bob accepted offer o1 from Alice'', c_from = ''system''\<rparr>)),
       (1, Msg (INVOICE \<lparr>i_id = ''o1'', i_buyer = ''A'', i_seller = ''B'',
                        i_price = 1 / 2, i_skill = ''design'', i_from = ''system''\<rparr>)),
       (2, Msg (INVOICE \<lparr>i_id = ''o1'', i_buyer = ''A'', i_seller = ''B'',
                        i_price = 1 / 2, i_skill = ''design'', i_from = ''system''\<rparr>))]"
  by (simp add: demo_invoiced_def demo_open_def demo_connect_def demo_offer_def demo_accept_def
      hub_defs Let_def)

section \<open>Settlement\<close>

text \<open>
  C2. A PAY frame \<open>p\<close> that is valid in the current state (an invoice is stored under
  \<open>p.id\<close>, \<open>p.from\<close> is the invoice's buyer, \<open>p.tx\<close> is not empty) appends exactly
  one transaction record, with from = buyer, to = seller, amount = price, reference
  \<open>p.tx\<close> and status completed; it deletes the invoice and the offer stored under that
  id; and the same PAY processed again, on any socket at any later time, leaves the
  state as it is, so no second record is appended. For a sender that is not a spectator
  the message listener does exactly what \<open>handlePayment\<close> does.
\<close>

theorem C2_valid_pay_settles_once:
  assumes "Map_get (activeInvoices s) (p_id p) = Some iv"
    and "p_from p = buyer iv"
    and "p_tx p \<noteq> []"
  shows "transactions (handlePayment rt p ws now s) =
           transactions s @
             [\<lparr> tx_id = p_id p, tx_timestamp = now, tx_from = buyer iv, tx_to = seller iv,
                amount = price iv, txHash = p_tx p, status = completed \<rparr>]
       \<and> activeInvoices (handlePayment rt p ws now s) = Map_delete (p_id p) (activeInvoices s)
       \<and> activeOffers (handlePayment rt p ws now s) = Map_delete (p_id p) (activeOffers s)
       \<and> Map_get (activeInvoices (handlePayment rt p ws now s)) (p_id p) = None
       \<and> Map_get (activeOffers (handlePayment rt p ws now s)) (p_id p) = None
       \<and> handlePayment rt p ws' now' (handlePayment rt p ws now s) = handlePayment rt p ws now s
       \<and> (\<not> is_spectator (Map_get (clients s) ws) \<longrightarrow>
            onMessage rt ws (Frame (PAY p)) now s = handlePayment rt p ws now s)"
proof -
  let ?s' = "handlePayment rt p ws now s"
  have valid: "validatePayment p (Map_get (activeInvoices s) (p_id p))"
    using assms by (simp add: validatePayment_def)
  note led = handlePayment_ledger [OF valid assms(1), of rt ws now]
  have gone: "Map_get (activeInvoices ?s') (p_id p) = None"
    by (simp add: led Map_get_Map_delete)
  have again: "handlePayment rt p ws' now' ?s' = ?s'"
    by (rule handlePayment_rejected) (simp add: gone validatePayment_def)
  show ?thesis
    using led gone again by (simp add: Map_get_Map_delete onMessage_not_spectator)
qed

theorem C2_witness:
  "Map_get (activeInvoices demo_invoiced) (p_id demo_pay) =
     Some \<lparr>inv_id = ''o1'', buyer = ''A'', seller = ''B'', price = 1 / 2,
           skill = ''design'', timestamp = 1000\<rparr>
   \<and> p_tx demo_pay \<noteq> []
   \<and> transactions (handlePayment demo_rt demo_pay 1 5000 demo_invoiced) =
       [\<lparr> tx_id = ''o1'', tx_timestamp = 5000, tx_from = ''A'', tx_to = ''B'',
          amount = 1 / 2, txHash = ''r1'', status = completed \<rparr>]
   \<and> activeInvoices (handlePayment demo_rt demo_pay 1 5000 demo_invoiced) = []
   \<and> activeOffers (handlePayment demo_rt demo_pay 1 5000 demo_invoiced) = []
   \<and> handlePayment demo_rt demo_pay 1 6000 (handlePayment demo_rt demo_pay 1 5000 demo_invoiced)
       = handlePayment demo_rt demo_pay 1 5000 demo_invoiced"
proof -
  let ?iv = "\<lparr>inv_id = ''o1'', buyer = ''A'', seller = ''B'', price = 1 / 2,
           skill = ''design'', timestamp = 1000\<rparr>"
  have inv: "activeInvoices demo_invoiced = [(''o1'', ?iv)]"
    and off: "activeOffers demo_invoiced = [(''o1'', \<lparr>o_id = ''o1'', o_price = 1 / 2, o_skill = ''design'', o_from = ''A''\<rparr>)]"
    and tx: "transactions demo_invoiced = []"
    by (subst demo_invoiced_eval, simp)+
  have h1: "Map_get (activeInvoices demo_invoiced) (p_id demo_pay) = Some ?iv"
    by (simp add: inv demo_pay_def Map_get_def)
  have h2: "p_from demo_pay = buyer ?iv" by (simp add: demo_pay_def)
  have h3: "p_tx demo_pay \<noteq> []" by (simp add: demo_pay_def)
  from C2_valid_pay_settles_once [OF h1 h2 h3, of demo_rt 1 5000 1 6000]
  show ?thesis
    using h1 h3 by (simp add: inv off tx demo_pay_def Map_delete_def)
qed

text \<open>
  C3. A PAY frame that is invalid (no invoice under \<open>p.id\<close>, or a payer other than the
  invoice's buyer, or an empty \<open>p.tx\<close>) is rejected: \<open>handlePayment\<close> returns the state
  it was given, so the clients, the open offers, the invoices and the transaction log
  are unchanged and nothing is sent to anyone. The same holds for the message listener
  when the sender is not a spectator (a spectator's PAY never reaches the ledger, see
  C6).
\<close>

theorem C3_invalid_pay_rejected:
  assumes "Map_get (activeInvoices s) (p_id p) = None
         \<or> (\<exists>iv. Map_get (activeInvoices s) (p_id p) = Some iv \<and> p_from p \<noteq> buyer iv)
         \<or> p_tx p = []"
  shows "handlePayment rt p ws now s = s
       \<and> (\<not> is_spectator (Map_get (clients s) ws) \<longrightarrow>
            onMessage rt ws (Frame (PAY p)) now s = s)"
proof -
  have "\<not> validatePayment p (Map_get (activeInvoices s) (p_id p))"
    using assms by (auto simp: validatePayment_def split: option.splits)
  then have "handlePayment rt p ws now s = s"
    by (rule handlePayment_rejected)
  then show ?thesis
    by (simp add: onMessage_not_spectator)
qed

theorem C3_witness:
  "(\<exists>iv. Map_get (activeInvoices demo_invoiced) ''o1'' = Some iv \<and> ''B'' \<noteq> buyer iv)
   \<and> \<not> is_spectator (Map_get (clients demo_invoiced) 2)
   \<and> handlePayment demo_rt \<lparr>p_id = ''o1'', p_tx = ''r1'', p_from = ''B''\<rparr> 2 5000 demo_invoiced
       = demo_invoiced
   \<and> onMessage demo_rt 2 (Frame (PAY \<lparr>p_id = ''o1'', p_tx = ''r1'', p_from = ''B''\<rparr>)) 5000
       demo_invoiced = demo_invoiced
   \<and> transactions demo_invoiced = []"
proof -
  let ?p = "\<lparr>p_id = ''o1'', p_tx = ''r1'', p_from = ''B''\<rparr>"
  have inv: "activeInvoices demo_invoiced = [(''o1'', \<lparr>inv_id = ''o1'', buyer = ''A'', seller = ''B'', price = 1 / 2,
           skill = ''design'', timestamp = 1000\<rparr>)]"
    and tx: "transactions demo_invoiced = []"
    by (subst demo_invoiced_eval, simp)+
  have cl: "\<not> is_spectator (Map_get (clients demo_invoiced) 2)"
    by (subst demo_invoiced_eval) (simp add: is_spectator_def Map_get_def)
  have h: "\<exists>iv. Map_get (activeInvoices demo_invoiced) (p_id ?p) = Some iv \<and> p_from ?p \<noteq> buyer iv"
    by (simp add: inv Map_get_def)
  then have "Map_get (activeInvoices demo_invoiced) (p_id ?p) = None
         \<or> (\<exists>iv. Map_get (activeInvoices demo_invoiced) (p_id ?p) = Some iv \<and> p_from ?p \<noteq> buyer iv)
         \<or> p_tx ?p = []" by blast
  from C3_invalid_pay_rejected [OF this, of demo_rt 2 5000]
  show ?thesis using h cl tx by simp
qed

section \<open>Capabilities of spectators\<close>

text \<open>
  C6. When the sender's connection is a spectator and the frame's kind is not CHAT
  (one of the other known kinds or an unknown one), the listener sends the sender the
  one capability notice and returns: the resulting state differs from the old one only
  in that one entry at the end of \<open>sent\<close>; clients, open offers, invoices and
  transactions are untouched.
\<close>

theorem C6_observer_denied:
  assumes "Map_get (clients s) ws = Some cl"
    and "connectionType cl = spectator"
    and "d = UnknownKind \<or> (\<exists>m. d = Frame m \<and> msg_t m \<noteq> ''CHAT'')"
  shows "onMessage rt ws d now s = s\<lparr> sent := sent s @ [(ws, Msg (CHAT spectatorWarning))] \<rparr>"
  using assms
  by (auto simp: onMessage_def is_spectator_def raw_t_def ws_send_def)

theorem C6_witness:
  "Map_get (clients demo_invoiced) 3 =
     Some \<lparr>client_id = ''c3'', isAlive = True, address = None,
           name = Some ''Eve'', client_type = None, connectionType = spectator\<rparr>
   \<and> msg_t (PAY demo_pay) \<noteq> ''CHAT''
   \<and> onMessage demo_rt 3 (Frame (PAY demo_pay)) 5000 demo_invoiced =
       demo_invoiced\<lparr> sent := sent demo_invoiced @ [(3, Msg (CHAT spectatorWarning))] \<rparr>"
proof -
  let ?cl = "\<lparr>client_id = ''c3'', isAlive = True, address = None,
           name = Some ''Eve'', client_type = None, connectionType = spectator\<rparr>"
  have h1: "Map_get (clients demo_invoiced) 3 = Some ?cl"
    by (subst demo_invoiced_eval) (simp add: Map_get_def)
  have h2: "connectionType ?cl = spectator" by simp
  have h3: "Frame (PAY demo_pay) = UnknownKind
      \<or> (\<exists>m. Frame (PAY demo_pay) = Frame m \<and> msg_t m \<noteq> ''CHAT'')" by simp
  from C6_observer_denied [OF h1 h2 h3, of demo_rt 5000]
  show ?thesis using h1 by simp
qed

section \<open>Reset\<close>

text \<open>
  C10. The reset endpoint empties the transaction log and the open offers, sends the
  reset notice to every client whose socket is open, and leaves the invoices (and the
  clients) as they are. A valid PAY against an invoice that existed before the reset
  therefore still settles afterwards: it appends the transaction record and removes the
  invoice, although the offer is gone.
\<close>

theorem C10_reset_keeps_invoices:
  assumes "Map_get (activeInvoices s) (p_id p) = Some iv"
    and "p_from p = buyer iv"
    and "p_tx p \<noteq> []"
  shows "transactions (api_reset s) = []
       \<and> activeOffers (api_reset s) = []
       \<and> activeInvoices (api_reset s) = activeInvoices s
       \<and> clients (api_reset s) = clients s
       \<and> sent (api_reset s) =
           sent s @ map (\<lambda>e. (fst e, Msg (CHAT resetMsg)))
                        (filter (\<lambda>e. readyState s (fst e) = OPEN) (clients s))
       \<and> transactions (handlePayment rt p ws now (api_reset s)) =
           [\<lparr> tx_id = p_id p, tx_timestamp = now, tx_from = buyer iv, tx_to = seller iv,
              amount = price iv, txHash = p_tx p, status = completed \<rparr>]
       \<and> Map_get (activeInvoices (handlePayment rt p ws now (api_reset s))) (p_id p) = None"
proof -
  have r: "api_reset s = s\<lparr> transactions := [], activeOffers := [],
             sent := sent s @ map (\<lambda>e. (fst e, Msg (CHAT resetMsg)))
                        (filter (\<lambda>e. readyState s (fst e) = OPEN) (clients s)) \<rparr>"
    by (simp add: api_reset_def Let_def reset_loop_eq)
  have inv: "activeInvoices (api_reset s) = activeInvoices s" by (simp add: r)
  have valid: "validatePayment p (Map_get (activeInvoices (api_reset s)) (p_id p))"
    using assms by (simp add: inv validatePayment_def)
  have h: "Map_get (activeInvoices (api_reset s)) (p_id p) = Some iv"
    using assms by (simp add: inv)
  note led = handlePayment_ledger [OF valid h, of rt ws now]
  show ?thesis
    by (simp add: led Map_get_Map_delete) (simp add: r)
qed

theorem C10_witness:
  "Map_get (activeInvoices demo_invoiced) (p_id demo_pay) =
     Some \<lparr>inv_id = ''o1'', buyer = ''A'', seller = ''B'', price = 1 / 2,
           skill = ''design'', timestamp = 1000\<rparr>
   \<and> p_tx demo_pay \<noteq> []
   \<and> activeOffers demo_invoiced \<noteq> []
   \<and> activeOffers (api_reset demo_invoiced) = []
   \<and> activeInvoices (api_reset demo_invoiced) =
       [(''o1'', \<lparr>inv_id = ''o1'', buyer = ''A'', seller = ''B'', price = 1 / 2,
                  skill = ''design'', timestamp = 1000\<rparr>)]
   \<and> sent (api_reset demo_invoiced) =
       sent demo_invoiced @ [(1, Msg (CHAT resetMsg)), (2, Msg (CHAT resetMsg)), (3, Msg (CHAT resetMsg))]
   \<and> transactions (handlePayment demo_rt demo_pay 1 5000 (api_reset demo_invoiced)) =
       [\<lparr> tx_id = ''o1'', tx_timestamp = 5000, tx_from = ''A'', tx_to = ''B'',
          amount = 1 / 2, txHash = ''r1'', status = completed \<rparr>]"
proof -
  let ?iv = "\<lparr>inv_id = ''o1'', buyer = ''A'', seller = ''B'', price = 1 / 2,
           skill = ''design'', timestamp = 1000\<rparr>"
  have inv: "activeInvoices demo_invoiced = [(''o1'', ?iv)]"
    and off: "activeOffers demo_invoiced = [(''o1'', \<lparr>o_id = ''o1'', o_price = 1 / 2, o_skill = ''design'', o_from = ''A''\<rparr>)]"
    and rs: "readyState demo_invoiced = (\<lambda>_. CONNECTING)(1 := OPEN, 2 := OPEN, 3 := OPEN)"
    and cl: "clients demo_invoiced = [(1, \<lparr>client_id = ''c1'', isAlive = True, address = Some ''A'',
            name = Some ''Alice'', client_type = None, connectionType = agent\<rparr>),
     (2, \<lparr>client_id = ''c2'', isAlive = True, address = Some ''B'',
            name = Some ''Bob'', client_type = None, connectionType = agent\<rparr>),
     (3, \<lparr>client_id = ''c3'', isAlive = True, address = None,
            name = Some ''Eve'', client_type = None, connectionType = spectator\<rparr>)]"
    by (subst demo_invoiced_eval, simp)+
  have h1: "Map_get (activeInvoices demo_invoiced) (p_id demo_pay) = Some ?iv"
    by (simp add: inv demo_pay_def Map_get_def)
  have h2: "p_from demo_pay = buyer ?iv" by (simp add: demo_pay_def)
  have h3: "p_tx demo_pay \<noteq> []" by (simp add: demo_pay_def)
  from C10_reset_keeps_invoices [OF h1 h2 h3, of demo_rt 1 5000]
  show ?thesis
    using h1 h3 by (simp add: inv off rs cl demo_pay_def)
qed

section \<open>Expiry\<close>

text \<open>
  C8. In every state the hub can reach, the expiry sweep run at time \<open>now\<close> changes
  nothing but the invoice table, from which it removes exactly the invoices with
  \<open>now - timestamp > 600000\<close> (ten minutes) and keeps the others in their order; it
  appends no transaction record; and a second sweep at the same time changes nothing
  more.
\<close>

theorem C8_expiry_sweep:
  "cleanupExpiredInvoices now (run rt evs) =
     (run rt evs)\<lparr> activeInvoices :=
        filter (\<lambda>e. \<not> now - timestamp (snd e) > 10 * 60 * 1000) (activeInvoices (run rt evs)) \<rparr>
   \<and> transactions (cleanupExpiredInvoices now (run rt evs)) = transactions (run rt evs)
   \<and> cleanupExpiredInvoices now (cleanupExpiredInvoices now (run rt evs))
       = cleanupExpiredInvoices now (run rt evs)"
proof -
  let ?s = "run rt evs"
  let ?keep = "\<lambda>e :: string \<times> Invoice. \<not> now - timestamp (snd e) > expiryTime"
  have d: "distinct (map fst (activeInvoices ?s))"
    using hub_inv_run [of rt evs] by (simp add: hub_inv_def)
  have 1: "cleanupExpiredInvoices now ?s = ?s\<lparr> activeInvoices := filter ?keep (activeInvoices ?s) \<rparr>"
    by (simp add: cleanupExpiredInvoices_def cleanup_loop_self [OF d])
  have d': "distinct (map fst (filter ?keep (activeInvoices ?s)))"
    using d by (simp add: distinct_map_filter)
  have 2: "cleanupExpiredInvoices now (cleanupExpiredInvoices now ?s) = cleanupExpiredInvoices now ?s"
    unfolding 1 by (simp add: cleanupExpiredInvoices_def cleanup_loop_self [OF d'])
  show ?thesis
    using 1 2 by (simp add: expiryTime_def)
qed

theorem C8_witness:
  "activeInvoices (cleanupExpiredInvoices 700000 demo_two_invoices) =
     [(''o2'', \<lparr>inv_id = ''o2'', buyer = ''B'', seller = ''A'', price = 3,
                skill = ''code'', timestamp = 500000\<rparr>)]
   \<and> transactions (cleanupExpiredInvoices 700000 demo_two_invoices) = []
   \<and> cleanupExpiredInvoices 700000 (cleanupExpiredInvoices 700000 demo_two_invoices)
       = cleanupExpiredInvoices 700000 demo_two_invoices"
proof -
  note c = C8_expiry_sweep [of 700000 demo_rt "demo_connect @
     [Message 1 (Frame (OFFER demo_offer)) 0, Message 2 (Frame (ACCEPT demo_accept)) 1000,
      Message 2 (Frame (OFFER demo_offer2)) 400000,
      Message 1 (Frame (ACCEPT \<lparr> a_id = ''o2'', a_from = ''A'' \<rparr>)) 500000]",
      folded demo_two_invoices_def]
  have a: "activeInvoices (cleanupExpiredInvoices 700000 demo_two_invoices) =
     [(''o2'', \<lparr>inv_id = ''o2'', buyer = ''B'', seller = ''A'', price = 3,
                skill = ''code'', timestamp = 500000\<rparr>)]"
    using arg_cong [OF conjunct1 [OF c], of activeInvoices]
    by (simp add: demo_two_invoices_eval)
  have b: "transactions (cleanupExpiredInvoices 700000 demo_two_invoices) = []"
    using conjunct1 [OF conjunct2 [OF c]] by (simp add: demo_two_invoices_eval)
  show ?thesis
    by (intro conjI a b conjunct2 [OF conjunct2 [OF c]])
qed

section \<open>Self-trade\<close>

text \<open>
  C5. An ACCEPT whose sender is the creator of the open offer stored under its id is
  rejected: \<open>handleAccept\<close> returns the state unchanged, and the message listener leaves
  the invoice table as it is. Every invoice in the invoice table of every state the hub
  can reach has a buyer different from its seller.
\<close>

theorem C5_no_self_trade:
  "(Map_get (activeOffers s) (a_id a) = Some off \<and> a_from a = o_from off \<longrightarrow>
      handleAccept rt a ws now s = s
      \<and> activeInvoices (onMessage rt ws (Frame (ACCEPT a)) now s) = activeInvoices s)
   \<and> list_all (\<lambda>e. buyer (snd e) \<noteq> seller (snd e)) (activeInvoices (run rt evs))"
proof -
  have "handleAccept rt a ws now s = s"
    if "Map_get (activeOffers s) (a_id a) = Some off" "a_from a = o_from off"
    using that by (intro handleAccept_rejected) (simp add: validateAccept_def)
  moreover have "list_all (\<lambda>e. buyer (snd e) \<noteq> seller (snd e)) (activeInvoices (run rt evs))"
    using hub_inv_run [of rt evs] by (simp add: hub_inv_def)
  ultimately show ?thesis
    using onMessage_ACCEPT_invoices [of rt ws a now s] by auto
qed

theorem C5_witness:
  "Map_get (activeOffers demo_open) ''o1'' = Some demo_offer
   \<and> o_from demo_offer = ''A''
   \<and> handleAccept demo_rt \<lparr> a_id = ''o1'', a_from = ''A'' \<rparr> 1 1000 demo_open = demo_open
   \<and> activeInvoices (onMessage demo_rt 1 (Frame (ACCEPT \<lparr> a_id = ''o1'', a_from = ''A'' \<rparr>)) 1000 demo_open) = []
   \<and> list_all (\<lambda>e. buyer (snd e) \<noteq> seller (snd e)) (activeInvoices demo_two_invoices)"
proof -
  have off: "activeOffers demo_open = [(''o1'', demo_offer)]"
    and inv: "activeInvoices demo_open = []"
    by (subst demo_open_eval, simp add: demo_offer_def)+
  have h: "Map_get (activeOffers demo_open) (a_id \<lparr> a_id = ''o1'', a_from = ''A'' \<rparr>) = Some demo_offer
      \<and> a_from \<lparr> a_id = ''o1'', a_from = ''A'' \<rparr> = o_from demo_offer"
    by (simp add: off Map_get_def) (simp add: demo_offer_def)
  note c = C5_no_self_trade [of demo_open "\<lparr> a_id = ''o1'', a_from = ''A'' \<rparr>" demo_offer
      demo_rt 1 1000 "demo_connect @
     [Message 1 (Frame (OFFER demo_offer)) 0, Message 2 (Frame (ACCEPT demo_accept)) 1000,
      Message 2 (Frame (OFFER demo_offer2)) 400000,
      Message 1 (Frame (ACCEPT \<lparr> a_id = ''o2'', a_from = ''A'' \<rparr>)) 500000]",
      folded demo_two_invoices_def]
  show ?thesis
    using c h by (simp add: inv)
qed

section \<open>Offers and accepts\<close>

text \<open>
  C4, as the code has it. \<open>handleOffer\<close> stores a valid offer with \<open>Map.set\<close>, with no
  test for an id that is already open. So after a valid OFFER is processed in a state the
  hub can reach, exactly one entry of the open-offer table has the offer's id and that
  entry is the new offer: an OFFER that reuses an open id replaces the stored offer. No
  reachable state has two entries under one id, and the entry under an id \<open>k\<close> can only
  change by an OFFER or a PAY frame carrying \<open>k\<close> or by a reset.
\<close>

theorem C4_offer_replaces:
  "(validateOffer offer \<longrightarrow>
      length (filter (\<lambda>e. fst e = o_id offer)
                (activeOffers (handleOffer rt offer ws (run rt evs)))) = 1
      \<and> Map_get (activeOffers (handleOffer rt offer ws (run rt evs))) (o_id offer) = Some offer)
   \<and> length (filter (\<lambda>e. fst e = k) (activeOffers (run rt evs))) \<le> 1
   \<and> (\<not> touches_offer k ev \<longrightarrow>
        Map_get (activeOffers (step rt s ev)) k = Map_get (activeOffers s) k)"
proof -
  have d: "distinct (map fst (activeOffers (run rt evs)))"
    using hub_inv_run [of rt evs] by (simp add: hub_inv_def)
  show ?thesis
    using count_Map_set [OF d] count_le_one_distinct [OF d] step_offers_untouched [of k ev rt s]
    by (simp add: handleOffer_ledger Map_get_Map_set)
qed

theorem C4_witness:
  "validateOffer \<lparr> o_id = ''o1'', o_price = 2, o_skill = ''logo'', o_from = ''B'' \<rparr>
   \<and> activeOffers demo_open = [(''o1'', demo_offer)]
   \<and> activeOffers (handleOffer demo_rt \<lparr> o_id = ''o1'', o_price = 2, o_skill = ''logo'', o_from = ''B'' \<rparr>
        2 demo_open)
       = [(''o1'', \<lparr> o_id = ''o1'', o_price = 2, o_skill = ''logo'', o_from = ''B'' \<rparr>)]
   \<and> \<not> touches_offer ''o1'' (Message 2 (Frame (ACCEPT demo_accept)) 1000)
   \<and> Map_get (activeOffers (step demo_rt demo_open (Message 2 (Frame (ACCEPT demo_accept)) 1000))) ''o1''
       = Some demo_offer"
proof -
  let ?o = "\<lparr> o_id = ''o1'', o_price = 2, o_skill = ''logo'', o_from = ''B'' \<rparr>"
  have off: "activeOffers demo_open = [(''o1'', demo_offer)]"
    by (subst demo_open_eval, simp add: demo_offer_def)
  have v: "validateOffer ?o" by (simp add: validateOffer_def)
  have nt: "\<not> touches_offer ''o1'' (Message 2 (Frame (ACCEPT demo_accept)) 1000)" by simp
  note c = C4_offer_replaces [of ?o demo_rt 2 "demo_connect @ [Message 1 (Frame (OFFER demo_offer)) 0]"
      "''o1''" "Message 2 (Frame (ACCEPT demo_accept)) 1000" demo_open, folded demo_open_def]
  have "activeOffers (handleOffer demo_rt ?o 2 demo_open) = [(''o1'', ?o)]"
    by (simp add: handleOffer_ledger v off)
  moreover have "Map_get (activeOffers (step demo_rt demo_open (Message 2 (Frame (ACCEPT demo_accept)) 1000))) ''o1''
       = Some demo_offer"
    using c nt by (simp add: off Map_get_def)
  ultimately show ?thesis using v off nt by simp
qed

text \<open>
  C4 as stated fails: with offer \<open>o1\<close> of \<open>A\<close> open, an OFFER of \<open>B\<close> that reuses the id
  \<open>o1\<close> replaces the stored offer.
\<close>

theorem C4_counterexample:
  "Map_get (activeOffers demo_open) ''o1'' = Some demo_offer
   \<and> Map_get (activeOffers (onMessage demo_rt 2
        (Frame (OFFER \<lparr> o_id = ''o1'', o_price = 2, o_skill = ''logo'', o_from = ''B'' \<rparr>)) 10 demo_open)) ''o1''
       = Some \<lparr> o_id = ''o1'', o_price = 2, o_skill = ''logo'', o_from = ''B'' \<rparr>
   \<and> demo_offer \<noteq> \<lparr> o_id = ''o1'', o_price = 2, o_skill = ''logo'', o_from = ''B'' \<rparr>"
proof -
  have off: "activeOffers demo_open = [(''o1'', demo_offer)]"
    and cl: "Map_get (clients demo_open) 2 = Some \<lparr>client_id = ''c2'', isAlive = True, address = None,
            name = Some ''Bob'', client_type = None, connectionType = agent\<rparr>"
    by (subst demo_open_eval, simp add: demo_offer_def Map_get_def)+
  show ?thesis
    by (simp add: onMessage_def handleMessage_def handleOffer_ledger validateOffer_def off cl
        is_spectator_def Map_get_Map_set)
      (simp add: Map_get_def demo_offer_def)
qed

text \<open>
  C1, as the code has it. An ACCEPT is valid exactly when an offer is stored under its id
  and the sender is not the offer's creator. An invalid ACCEPT changes nothing. A valid
  one stores the invoice (buyer the offer's creator, seller the sender, price and skill of
  the offer) under the offer's id with \<open>Map.set\<close>, which replaces an invoice already
  there, and it leaves the open-offer table and the transaction log as they are: the offer
  stays open. A later ACCEPT for the same id is therefore valid again whenever its sender
  is not the offer's creator.
\<close>

theorem C1_accept_keeps_offer_open:
  "validateAccept a (Map_get (activeOffers s) (a_id a)) =
     (\<exists>off. Map_get (activeOffers s) (a_id a) = Some off \<and> a_from a \<noteq> o_from off)
   \<and> (\<not> validateAccept a (Map_get (activeOffers s) (a_id a)) \<longrightarrow>
        handleAccept rt a ws now s = s)
   \<and> (\<forall>off. Map_get (activeOffers s) (a_id a) = Some off \<and> a_from a \<noteq> o_from off \<longrightarrow>
        activeInvoices (handleAccept rt a ws now s) =
          Map_set (o_id off)
            \<lparr> inv_id = o_id off, buyer = o_from off, seller = a_from a,
              price = o_price off, skill = o_skill off, timestamp = now \<rparr>
            (activeInvoices s)
        \<and> activeOffers (handleAccept rt a ws now s) = activeOffers s
        \<and> transactions (handleAccept rt a ws now s) = transactions s
        \<and> (\<forall>a'. a_id a' = a_id a \<longrightarrow>
             validateAccept a' (Map_get (activeOffers (handleAccept rt a ws now s)) (a_id a'))
               = (a_from a' \<noteq> o_from off)))"
  by (auto simp: handleAccept_ledger handleAccept_rejected validateAccept_def split: option.splits)

theorem C1_witness:
  "Map_get (activeOffers demo_invoiced) ''o1'' = Some demo_offer
   \<and> ''C'' \<noteq> o_from demo_offer
   \<and> activeInvoices (handleAccept demo_rt \<lparr> a_id = ''o1'', a_from = ''C'' \<rparr> 2 2000 demo_invoiced) =
       [(''o1'', \<lparr> inv_id = ''o1'', buyer = ''A'', seller = ''C'', price = 1 / 2,
                  skill = ''design'', timestamp = 2000 \<rparr>)]
   \<and> activeOffers (handleAccept demo_rt \<lparr> a_id = ''o1'', a_from = ''C'' \<rparr> 2 2000 demo_invoiced) =
       [(''o1'', demo_offer)]
   \<and> validateAccept \<lparr> a_id = ''o1'', a_from = ''D'' \<rparr>
         (Map_get (activeOffers (handleAccept demo_rt \<lparr> a_id = ''o1'', a_from = ''C'' \<rparr> 2 2000
            demo_invoiced)) ''o1'')
   \<and> \<not> validateAccept \<lparr> a_id = ''zz'', a_from = ''C'' \<rparr> (Map_get (activeOffers demo_invoiced) ''zz'')
   \<and> handleAccept demo_rt \<lparr> a_id = ''zz'', a_from = ''C'' \<rparr> 2 2000 demo_invoiced = demo_invoiced"
proof -
  let ?a = "\<lparr> a_id = ''o1'', a_from = ''C'' \<rparr>"
  let ?b = "\<lparr> a_id = ''zz'', a_from = ''C'' \<rparr>"
  have off: "activeOffers demo_invoiced = [(''o1'', demo_offer)]"
    and inv: "activeInvoices demo_invoiced = [(''o1'', \<lparr>inv_id = ''o1'', buyer = ''A'', seller = ''B'', price = 1 / 2,
           skill = ''design'', timestamp = 1000\<rparr>)]"
    by (subst demo_invoiced_eval, simp add: demo_offer_def)+
  have h: "Map_get (activeOffers demo_invoiced) (a_id ?a) = Some demo_offer \<and> a_from ?a \<noteq> o_from demo_offer"
    by (simp add: off Map_get_def) (simp add: demo_offer_def)
  have nb: "\<not> validateAccept ?b (Map_get (activeOffers demo_invoiced) (a_id ?b))"
    by (simp add: off Map_get_def validateAccept_def)
  note c1 = C1_accept_keeps_offer_open [of ?a demo_invoiced demo_rt 2 2000]
  note c2 = C1_accept_keeps_offer_open [of ?b demo_invoiced demo_rt 2 2000]
  have step: "activeInvoices (handleAccept demo_rt ?a 2 2000 demo_invoiced) =
          Map_set (o_id demo_offer)
            \<lparr> inv_id = o_id demo_offer, buyer = o_from demo_offer, seller = a_from ?a,
              price = o_price demo_offer, skill = o_skill demo_offer, timestamp = 2000 \<rparr>
            (activeInvoices demo_invoiced)
        \<and> activeOffers (handleAccept demo_rt ?a 2 2000 demo_invoiced) = activeOffers demo_invoiced
        \<and> validateAccept \<lparr> a_id = ''o1'', a_from = ''D'' \<rparr>
              (Map_get (activeOffers (handleAccept demo_rt ?a 2 2000 demo_invoiced))
                 (a_id \<lparr> a_id = ''o1'', a_from = ''D'' \<rparr>))
            = (a_from \<lparr> a_id = ''o1'', a_from = ''D'' \<rparr> \<noteq> o_from demo_offer)"
  proof -
    from c1 h have parts:
      "activeInvoices (handleAccept demo_rt ?a 2 2000 demo_invoiced) =
          Map_set (o_id demo_offer)
            \<lparr> inv_id = o_id demo_offer, buyer = o_from demo_offer, seller = a_from ?a,
              price = o_price demo_offer, skill = o_skill demo_offer, timestamp = 2000 \<rparr>
            (activeInvoices demo_invoiced)
        \<and> activeOffers (handleAccept demo_rt ?a 2 2000 demo_invoiced) = activeOffers demo_invoiced
        \<and> transactions (handleAccept demo_rt ?a 2 2000 demo_invoiced) = transactions demo_invoiced
        \<and> (\<forall>a'. a_id a' = a_id ?a \<longrightarrow>
             validateAccept a' (Map_get (activeOffers (handleAccept demo_rt ?a 2 2000 demo_invoiced)) (a_id a'))
               = (a_from a' \<noteq> o_from demo_offer))"
      by blast
    from parts have "a_id \<lparr> a_id = ''o1'', a_from = ''D'' \<rparr> = a_id ?a \<longrightarrow>
        validateAccept \<lparr> a_id = ''o1'', a_from = ''D'' \<rparr>
              (Map_get (activeOffers (handleAccept demo_rt ?a 2 2000 demo_invoiced))
                 (a_id \<lparr> a_id = ''o1'', a_from = ''D'' \<rparr>))
            = (a_from \<lparr> a_id = ''o1'', a_from = ''D'' \<rparr> \<noteq> o_from demo_offer)"
      by blast
    then have "validateAccept \<lparr> a_id = ''o1'', a_from = ''D'' \<rparr>
              (Map_get (activeOffers (handleAccept demo_rt ?a 2 2000 demo_invoiced))
                 (a_id \<lparr> a_id = ''o1'', a_from = ''D'' \<rparr>))
            = (a_from \<lparr> a_id = ''o1'', a_from = ''D'' \<rparr> \<noteq> o_from demo_offer)"
      by simp
    with parts show ?thesis by blast
  qed
  have rej: "handleAccept demo_rt ?b 2 2000 demo_invoiced = demo_invoiced"
    using c2 nb by blast
  have g1: "Map_get (activeOffers demo_invoiced) ''o1'' = Some demo_offer"
    and g2: "''C'' \<noteq> o_from demo_offer"
    using h by simp_all
  have g3: "activeInvoices (handleAccept demo_rt ?a 2 2000 demo_invoiced) =
       [(''o1'', \<lparr> inv_id = ''o1'', buyer = ''A'', seller = ''C'', price = 1 / 2,
                  skill = ''design'', timestamp = 2000 \<rparr>)]"
    using step [THEN conjunct1] by (simp add: inv demo_offer_def)
  have g4: "activeOffers (handleAccept demo_rt ?a 2 2000 demo_invoiced) = [(''o1'', demo_offer)]"
    using step [THEN conjunct2, THEN conjunct1] by (simp add: off)
  have g5: "validateAccept \<lparr> a_id = ''o1'', a_from = ''D'' \<rparr>
         (Map_get (activeOffers (handleAccept demo_rt ?a 2 2000 demo_invoiced)) ''o1'')"
    using step [THEN conjunct2, THEN conjunct2] by (simp add: demo_offer_def)
  have g6: "\<not> validateAccept ?b (Map_get (activeOffers demo_invoiced) ''zz'')"
    using nb by simp
  show ?thesis
    by (intro conjI g1 g2 g3 g4 g5 g6 rej)
qed

text \<open>
  C1 as stated fails: after the valid ACCEPT of \<open>B\<close> for \<open>o1\<close> the offer is still in the
  open-offer table, and a later ACCEPT of \<open>C\<close> for \<open>o1\<close> is not rejected but replaces the
  invoice of \<open>B\<close> by one whose seller is \<open>C\<close>.
\<close>

theorem C1_counterexample:
  "Map_get (activeInvoices demo_invoiced) ''o1'' =
     Some \<lparr> inv_id = ''o1'', buyer = ''A'', seller = ''B'', price = 1 / 2,
            skill = ''design'', timestamp = 1000 \<rparr>
   \<and> Map_get (activeOffers demo_invoiced) ''o1'' = Some demo_offer
   \<and> Map_get (activeInvoices (onMessage demo_rt 2
        (Frame (ACCEPT \<lparr> a_id = ''o1'', a_from = ''C'' \<rparr>)) 2000 demo_invoiced)) ''o1'' =
     Some \<lparr> inv_id = ''o1'', buyer = ''A'', seller = ''C'', price = 1 / 2,
            skill = ''design'', timestamp = 2000 \<rparr>"
proof -
  have off: "activeOffers demo_invoiced = [(''o1'', demo_offer)]"
    and inv: "activeInvoices demo_invoiced = [(''o1'', \<lparr>inv_id = ''o1'', buyer = ''A'', seller = ''B'', price = 1 / 2,
           skill = ''design'', timestamp = 1000\<rparr>)]"
    and cl: "Map_get (clients demo_invoiced) 2 = Some \<lparr>client_id = ''c2'', isAlive = True, address = Some ''B'',
            name = Some ''Bob'', client_type = None, connectionType = agent\<rparr>"
    by (subst demo_invoiced_eval, simp add: demo_offer_def Map_get_def)+
  show ?thesis
    by (simp add: onMessage_def handleMessage_def handleAccept_ledger off inv cl
        is_spectator_def Map_get_Map_set)
      (simp add: Map_get_def demo_offer_def inv)
qed

section \<open>Address binding\<close>

text \<open>
  C9, as the code has it. Every assignment to \<open>client.address\<close> is guarded by
  \<open>!client.address\<close>, which holds for an undefined address and for the empty string.
  So, for a registered socket \<open>w\<close> with client \<open>cl\<close>, after any frame processed on any
  socket \<open>ws\<close>: the address of \<open>w\<close> is what it was, unless \<open>w\<close> is the sender and its
  address was undefined or empty, in which case it becomes the \<open>from\<close> of the frame when
  the frame binds (a CHAT not from \<open>system\<close>; for an agent, an OFFER, ACCEPT or PAY that
  passes validation) and stays what it was when the frame does not bind. In particular a
  non-empty address never changes, and no frame changes the address of another socket.
\<close>

theorem C9_address_binding:
  assumes "Map_get (clients s) w = Some cl"
  shows "addr_of (onMessage rt ws d now s) w =
     Some (if w = ws \<and> \<not> truthy (address cl)
           then (case binding_of s (connectionType cl) d of Some a \<Rightarrow> Some a | None \<Rightarrow> address cl)
           else address cl)"
proof -
  have a: "addr_of s w = Some (address cl)"
    using assms by (simp add: addr_of_def)
  show ?thesis
  proof (cases d)
    case Unparsable
    then show ?thesis using a by (auto simp: onMessage_def)
  next
    case UnknownKind
    then show ?thesis using a by (auto simp: onMessage_def)
  next
    case (Frame m)
    show ?thesis
    proof (cases "is_spectator (Map_get (clients s) ws) \<and> raw_t d \<noteq> Some ''CHAT''")
      case True
      then have "onMessage rt ws d now s = ws_send ws (Msg (CHAT spectatorWarning)) s"
        using Frame by (simp add: onMessage_def)
      moreover have "w = ws \<Longrightarrow> binding_of s (connectionType cl) d = None"
        using True Frame assms by (cases m) (auto simp: is_spectator_def raw_t_def)
      ultimately show ?thesis using a by auto
    next
      case False
      show ?thesis
      proof (cases m)
        case (OFFER x)
        with False Frame assms a show ?thesis
          by (cases "connectionType cl")
            (auto simp: onMessage_def handleMessage_def addr_of_handleOffer bindf_def
              is_spectator_def raw_t_def)
      next
        case (ACCEPT x)
        with False Frame assms a show ?thesis
          by (cases "connectionType cl")
            (auto simp: onMessage_def handleMessage_def addr_of_handleAccept bindf_def
              is_spectator_def raw_t_def)
      next
        case (PAY x)
        with False Frame assms a show ?thesis
          by (cases "connectionType cl")
            (auto simp: onMessage_def handleMessage_def addr_of_handlePayment bindf_def
              is_spectator_def raw_t_def)
      next
        case (CHAT x)
        with False Frame assms a show ?thesis
          by (auto simp: onMessage_def handleMessage_def addr_of_handleChat addr_of_introduce
              bindf_def)
      next
        case (INVOICE x)
        with False Frame assms a show ?thesis
          by (auto simp: onMessage_def handleMessage_def is_spectator_def raw_t_def)
      qed
    qed
  qed
qed

theorem C9_witness:
  "Map_get (clients demo_open) 2 =
     Some \<lparr>client_id = ''c2'', isAlive = True, address = None,
           name = Some ''Bob'', client_type = None, connectionType = agent\<rparr>
   \<and> addr_of (onMessage demo_rt 2 (Frame (ACCEPT demo_accept)) 1000 demo_open) 2 = Some (Some ''B'')
   \<and> addr_of (onMessage demo_rt 2 (Frame (ACCEPT demo_accept)) 1000 demo_open) 1 = Some (Some ''A'')
   \<and> addr_of (onMessage demo_rt 1 (Frame (CHAT \<lparr> c_text = ''hi'', c_from = ''Z'' \<rparr>)) 1000 demo_open) 1
       = Some (Some ''A'')"
proof -
  let ?c1 = "\<lparr>client_id = ''c1'', isAlive = True, address = Some ''A'',
            name = Some ''Alice'', client_type = None, connectionType = agent\<rparr>"
  let ?c2 = "\<lparr>client_id = ''c2'', isAlive = True, address = None,
           name = Some ''Bob'', client_type = None, connectionType = agent\<rparr>"
  have h1: "Map_get (clients demo_open) 1 = Some ?c1"
    and h2: "Map_get (clients demo_open) 2 = Some ?c2"
    and off: "activeOffers demo_open = [(''o1'', demo_offer)]"
    by (subst demo_open_eval, simp add: Map_get_def demo_offer_def)+
  have v: "validateAccept demo_accept (Map_get (activeOffers demo_open) (a_id demo_accept))"
    by (simp add: off) (simp add: Map_get_def validateAccept_def demo_accept_def demo_offer_def)
  note a = C9_address_binding [OF h2, of demo_rt 2 "Frame (ACCEPT demo_accept)" 1000]
  note b = C9_address_binding [OF h1, of demo_rt 2 "Frame (ACCEPT demo_accept)" 1000]
  note c = C9_address_binding [OF h1, of demo_rt 1 "Frame (CHAT \<lparr> c_text = ''hi'', c_from = ''Z'' \<rparr>)" 1000]
  show ?thesis
    using a b c h2 v by (simp add: demo_accept_def)
qed

text \<open>
  C9 as stated fails for the empty string: a first CHAT whose \<open>from\<close> is empty sets the
  address of the fresh connection to the empty string, and a later CHAT from \<open>A\<close> on the
  same connection changes it to \<open>A\<close>.
\<close>

theorem C9_counterexample:
  "addr_of (run demo_rt [Connection 1 ''c1'' None (Some ''Zed'')]) 1 = Some None
   \<and> addr_of (run demo_rt demo_chat_empty) 1 = Some (Some [])
   \<and> addr_of (onMessage demo_rt 1 (Frame (CHAT \<lparr> c_text = ''hello'', c_from = ''A'' \<rparr>)) 10
        (run demo_rt demo_chat_empty)) 1 = Some (Some ''A'')"
proof -
  have a1: "addr_of (run demo_rt [Connection 1 ''c1'' None (Some ''Zed'')]) 1 = Some None"
    by (simp add: addr_of_def hub_defs Let_def)
  have a2: "addr_of (run demo_rt demo_chat_empty) 1 = Some (Some [])"
    by (simp add: addr_of_def demo_chat_empty_eval Map_get_def)
  have a2s: "addr_of (run demo_rt demo_chat_empty) (Suc 0) = Some (Some [])"
    using a2 by simp
  have a3: "addr_of (onMessage demo_rt 1 (Frame (CHAT \<lparr> c_text = ''hello'', c_from = ''A'' \<rparr>)) 10
        (run demo_rt demo_chat_empty)) 1 = Some (Some ''A'')"
    by (simp add: onMessage_def handleMessage_def addr_of_handleChat addr_of_introduce
        is_spectator_def raw_t_def bindf_def a2s)
  show ?thesis using a1 a2 a3 by simp
qed

section \<open>What spectators receive\<close>

text \<open>
  C7. In every state the hub can reach, and for every event handled there, each frame the
  hub sends during that event to a socket that is registered as a spectator (before or
  after the event) is a frame object whose kind is CHAT, OFFER, ACCEPT or PAY; in
  particular it is never an INVOICE. (\<open>broadcast\<close> filters by kind for spectators,
  \<open>broadcastToAgents\<close> and \<open>sendToAddress\<close> skip them, and the welcome, the capability
  notice and the reset notice are CHAT frames.)
\<close>

theorem C7_spectator_frames:
  "list_all
     (\<lambda>e. is_spectator (Map_get (clients (run rt evs)) (fst e))
            \<or> is_spectator (Map_get (clients (step rt (run rt evs) ev)) (fst e))
          \<longrightarrow> spectator_kind (snd e) \<and> \<not> is_invoice (snd e))
     (new_frames (run rt evs) (step rt (run rt evs) ev))"
proof -
  let ?s = "run rt evs" and ?s' = "step rt (run rt evs) ev"
  have d: "distinct (map fst (clients ?s))"
    using hub_inv_run [of rt evs] by (simp add: hub_inv_def)
  have d': "distinct (map fst (clients ?s'))"
    using hub_inv_run [of rt "evs @ [ev]"] by (simp add: hub_inv_def run_snoc)
  from step_frames [of rt ?s ev] obtain xs where
    xs: "sent ?s' = sent ?s @ xs" "frames_ok (roles (clients ?s)) xs"
        "frames_ok (roles (clients ?s')) xs" by blast
  have new: "new_frames ?s ?s' = xs"
    by (simp add: new_frames_def xs(1))
  have "spectator_kind (snd e)"
    if e: "e \<in> set xs"
      and sp: "is_spectator (Map_get (clients ?s) (fst e)) \<or> is_spectator (Map_get (clients ?s') (fst e))"
    for e
  proof (rule ccontr)
    assume n: "\<not> spectator_kind (snd e)"
    from xs(2) e n have "(fst e, agent) \<in> set (roles (clients ?s))"
      by (auto simp: frames_ok_def list_all_iff)
    from roles_lookup [OF d this] have 1: "\<not> is_spectator (Map_get (clients ?s) (fst e))"
      by (auto simp: is_spectator_def)
    from xs(3) e n have "(fst e, agent) \<in> set (roles (clients ?s'))"
      by (auto simp: frames_ok_def list_all_iff)
    from roles_lookup [OF d' this] have 2: "\<not> is_spectator (Map_get (clients ?s') (fst e))"
      by (auto simp: is_spectator_def)
    from 1 2 sp show False by blast
  qed
  then show ?thesis
    unfolding new by (auto simp: list_all_iff spectator_kind_not_invoice)
qed

theorem C7_witness:
  "is_spectator (Map_get (clients demo_open) 3)
   \<and> new_frames demo_open (step demo_rt demo_open (Message 2 (Frame (ACCEPT demo_accept)) 1000)) =
      [(1, Msg (ACCEPT \<lparr>a_id = ''o1'', a_from = ''B''\<rparr>)),
       (1, Msg (CHAT \<lparr>c_text = ''Bob accepted offer o1 from Alice'', c_from = ''system''\<rparr>)),
       (3, Msg (CHAT \<lparr>c_text = ''Bob accepted offer o1 from Alice'', c_from = ''system''\<rparr>)),
       (1, Msg (INVOICE \<lparr>i_id = ''o1'', i_buyer = ''A'', i_seller = ''B'',
                        i_price = 1 / 2, i_skill = ''design'', i_from = ''system''\<rparr>)),
       (2, Msg (INVOICE \<lparr>i_id = ''o1'', i_buyer = ''A'', i_seller = ''B'',
                        i_price = 1 / 2, i_skill = ''design'', i_from = ''system''\<rparr>))]
   \<and> list_all
     (\<lambda>e. is_spectator (Map_get (clients demo_open) (fst e))
            \<or> is_spectator (Map_get (clients (step demo_rt demo_open (Message 2 (Frame (ACCEPT demo_accept)) 1000))) (fst e))
          \<longrightarrow> spectator_kind (snd e) \<and> \<not> is_invoice (snd e))
     (new_frames demo_open (step demo_rt demo_open (Message 2 (Frame (ACCEPT demo_accept)) 1000)))"
proof -
  have st: "onMessage demo_rt 2 (Frame (ACCEPT demo_accept)) 1000 demo_open = demo_invoiced"
    by (simp add: demo_invoiced_def demo_open_def run_def)
  have sp: "is_spectator (Map_get (clients demo_open) 3)"
    by (subst demo_open_eval) (simp add: Map_get_def is_spectator_def)
  have nf: "new_frames demo_open demo_invoiced = drop (length (sent demo_open)) (sent demo_invoiced)"
    by (simp add: new_frames_def)
  note c = C7_spectator_frames [of demo_rt "demo_connect @ [Message 1 (Frame (OFFER demo_offer)) 0]"
      "Message 2 (Frame (ACCEPT demo_accept)) 1000", folded demo_open_def]
  show ?thesis
    using c sp by (simp add: st nf demo_invoiced_sent)
qed

end
